theory Spec2Isabelle
  imports Main "HOL-Library.Sublist" "HOL-Library.AList"
begin

section \<open>JavaScript string primitives used by the edit engine\<close>

text \<open>
  Strings are lists of characters. The functions below model the built-in string
  methods that \<open>src/utils/file-utils.ts\<close> calls: \<open>includes\<close>, \<open>indexOf\<close>,
  \<open>replace\<close> with a string pattern, \<open>split('\n')\<close>, \<open>join('\n')\<close>, \<open>trim\<close>,
  \<open>trimStart\<close> and the match of \<open>/^\s*/\<close>.
\<close>

definition LF :: char where
  "LF = CHR 0x0A"

definition CR :: char where
  "CR = CHR 0x0D"

definition DOLLAR :: char where
  "DOLLAR = CHR 0x24"

definition BACKTICK :: char where
  "BACKTICK = CHR 0x60"

definition AMPERSAND :: char where
  "AMPERSAND = CHR 0x26"

definition APOSTROPHE :: char where
  "APOSTROPHE = CHR 0x27"

definition SPACE :: char where
  "SPACE = CHR 0x20"

text \<open>\<open>s.includes(sub)\<close>: \<open>sub\<close> occurs in \<open>s\<close> as a contiguous block.\<close>

fun str_includes :: "string \<Rightarrow> string \<Rightarrow> bool" where
  "str_includes [] sub = (sub = [])"
| "str_includes (c # cs) sub = (prefix sub (c # cs) \<or> str_includes cs sub)"

text \<open>\<open>s.indexOf(sub)\<close>: the least position of an occurrence, \<open>None\<close> for \<open>-1\<close>.\<close>

fun indexOf :: "string \<Rightarrow> string \<Rightarrow> nat option" where
  "indexOf [] sub = (if sub = [] then Some 0 else None)"
| "indexOf (c # cs) sub =
     (if prefix sub (c # cs) then Some 0
      else (case indexOf cs sub of None \<Rightarrow> None | Some i \<Rightarrow> Some (Suc i)))"

text \<open>
  The replacement text of \<open>String.prototype.replace\<close> is a template
  (ECMAScript \<open>GetSubstitution\<close>). With a string pattern there are no capture
  groups, so the patterns that are expanded are \<open>$$\<close> (a dollar sign), \<open>$&\<close> (the
  matched text), \<open>$`\<close> (the text preceding the match) and \<open>$'\<close> (the text following the
  match); every other character, and a dollar sign followed by anything else, is
  copied.
\<close>

fun getSubstitution :: "string \<Rightarrow> string \<Rightarrow> string \<Rightarrow> string \<Rightarrow> string" where
  "getSubstitution matched preceding following [] = []"
| "getSubstitution matched preceding following [c] = [c]"
| "getSubstitution matched preceding following (c # d # r) =
     (if c = DOLLAR \<and> d = DOLLAR then DOLLAR # getSubstitution matched preceding following r
      else if c = DOLLAR \<and> d = AMPERSAND then matched @ getSubstitution matched preceding following r
      else if c = DOLLAR \<and> d = BACKTICK then preceding @ getSubstitution matched preceding following r
      else if c = DOLLAR \<and> d = APOSTROPHE then following @ getSubstitution matched preceding following r
      else c # getSubstitution matched preceding following (d # r))"

text \<open>
  \<open>s.replace(pattern, replacement)\<close> with a string pattern: only the first
  occurrence is replaced, by the expanded template; without an occurrence the
  string is returned as it is.
\<close>

definition str_replace :: "string \<Rightarrow> string \<Rightarrow> string \<Rightarrow> string" where
  "str_replace s pattern replacement =
     (case indexOf s pattern of
        None \<Rightarrow> s
      | Some pos \<Rightarrow>
          (let preceding = take pos s;
               following = drop (pos + length pattern) s
           in preceding @ getSubstitution pattern preceding following replacement @ following))"

text \<open>
  \<open>s.split(sep)\<close> with a one-character separator: never empty, \<open>''.split(sep)\<close>
  is \<open>['']\<close>.
\<close>

fun str_split :: "char \<Rightarrow> string \<Rightarrow> string list" where
  "str_split sep [] = [[]]"
| "str_split sep (c # cs) =
     (if c = sep then [] # str_split sep cs
      else (case str_split sep cs of
              [] \<Rightarrow> [[c]]
            | l # ls \<Rightarrow> (c # l) # ls))"

text \<open>\<open>parts.join(sep)\<close> with a one-character separator.\<close>

fun str_join :: "char \<Rightarrow> string list \<Rightarrow> string" where
  "str_join sep [] = []"
| "str_join sep [l] = l"
| "str_join sep (l # m # ls) = l @ sep # str_join sep (m # ls)"

abbreviation split_lines :: "string \<Rightarrow> string list" where
  "split_lines \<equiv> str_split LF"

abbreviation join_lines :: "string list \<Rightarrow> string" where
  "join_lines \<equiv> str_join LF"

text \<open>
  White space as \<open>trim\<close> and the regular expression class \<open>\s\<close> see it, on the
  characters below \<open>0x100\<close>: tab, line feed, vertical tab, form feed, carriage
  return, space and the no-break space.
\<close>

definition is_space :: "char \<Rightarrow> bool" where
  "is_space c = (c \<in> set [CHR 0x09, CHR 0x0A, CHR 0x0B, CHR 0x0C, CHR 0x0D, CHR 0x20, CHR 0xA0])"

definition trimStart :: "string \<Rightarrow> string" where
  "trimStart s = dropWhile is_space s"

definition trim :: "string \<Rightarrow> string" where
  "trim s = rev (dropWhile is_space (rev (dropWhile is_space s)))"

text \<open>\<open>line.match(/^\s*/)?.[0] || ''\<close>: the leading white space of a line.\<close>

definition leading_space :: "string \<Rightarrow> string" where
  "leading_space s = takeWhile is_space s"

section \<open>The edit engine\<close>

text \<open>\<open>normalizeLineEndings\<close>: \<open>text.replace(/\r\n/g, '\n')\<close>, one pass from the left.\<close>

fun normalizeLineEndings :: "string \<Rightarrow> string" where
  "normalizeLineEndings (c # d # r) =
     (if c = CR \<and> d = LF then LF # normalizeLineEndings r
      else c # normalizeLineEndings (d # r))"
| "normalizeLineEndings s = s"

record edit_operation =
  oldText :: string
  newText :: string

text \<open>
  The callback of \<open>oldLines.every\<close>: line \<open>j\<close> of the old text and line \<open>j\<close> of the
  window are equal once both are trimmed.
\<close>

definition isMatch :: "string list \<Rightarrow> string list \<Rightarrow> bool" where
  "isMatch oldLines potentialMatch =
     (length potentialMatch = length oldLines \<and>
      list_all2 (\<lambda>oldLine contentLine. trim oldLine = trim contentLine) oldLines potentialMatch)"

text \<open>
  The callback of \<open>normalizedNew.split('\n').map\<close>: line \<open>j\<close> of the replacement,
  re-indented. \<open>oldLines[j]\<close> is undefined beyond the old text, and its indent is
  then the empty string.
\<close>

definition reindent :: "string \<Rightarrow> string list \<Rightarrow> nat \<Rightarrow> string \<Rightarrow> string" where
  "reindent originalIndent oldLines j line =
     (if j = 0 then originalIndent @ trimStart line
      else
        (let oldIndent = (if j < length oldLines then leading_space (oldLines ! j) else []);
             newIndent = leading_space line
         in if oldIndent \<noteq> [] \<and> newIndent \<noteq> []
            then originalIndent
                 @ replicate (nat (max 0 (int (length newIndent) - int (length oldIndent)))) SPACE
                 @ trimStart line
            else line))"

definition newLines :: "string \<Rightarrow> string list \<Rightarrow> string \<Rightarrow> string list" where
  "newLines originalIndent oldLines normalizedNew =
     map (\<lambda>(j, line). reindent originalIndent oldLines j line)
       (enumerate 0 (split_lines normalizedNew))"

text \<open>
  The window loop \<open>for (let i = 0; i <= contentLines.length - oldLines.length; i++)\<close>,
  from index \<open>i\<close> on: the content with the splice made at the first matching window,
  or \<open>None\<close> when the loop ends with \<open>matchFound\<close> still false.
\<close>

function fuzzy_loop :: "string list \<Rightarrow> string list \<Rightarrow> string \<Rightarrow> nat \<Rightarrow> string option" where
  "fuzzy_loop oldLines contentLines normalizedNew i =
     (if int i \<le> int (length contentLines) - int (length oldLines) then
        (if isMatch oldLines (take (length oldLines) (drop i contentLines)) then
           (let originalIndent = leading_space (contentLines ! i)
            in Some (join_lines
                 (take i contentLines
                  @ newLines originalIndent oldLines normalizedNew
                  @ drop (i + length oldLines) contentLines)))
         else fuzzy_loop oldLines contentLines normalizedNew (Suc i))
      else None)"
  by pat_completeness auto
termination
  by (relation "measure (\<lambda>(oldLines, contentLines, normalizedNew, i). Suc (length contentLines) - i)") auto

declare fuzzy_loop.simps [simp del]

text \<open>Which of the two matching steps placed an edit.\<close>

datatype match_kind = ExactMatch | FuzzyMatch

datatype errno = ENOENT | ENOTDIR | EISDIR | ELOOP | ENOTEMPTY | EINVAL

datatype rejection = MissingAncestor | OutsideSandbox | UnresolvableSymlink

text \<open>
  The failures of the program, one constructor per kind of \<open>throw\<close>:
  \<open>ValidationError\<close> for \<open>Invalid arguments for ...\<close>, \<open>PathRejected\<close> for what
  \<open>validatePath\<close> throws, \<open>PermissionDenied\<close> for \<open>... permission not granted\<close>,
  \<open>NotFound\<close> for \<open>... does not exist\<close>, \<open>AlreadyExists\<close> for \<open>... already exists\<close>,
  \<open>MatchFailure\<close> for \<open>Could not find exact match for edit\<close> with the old text as the
  caller gave it, and \<open>IOFailure\<close> for a rejected filesystem call.
\<close>

datatype error =
    ValidationError
  | PathRejected rejection
  | PermissionDenied
  | NotFound
  | AlreadyExists
  | MatchFailure string
  | IOFailure errno

text \<open>
  One iteration of \<open>for (const edit of edits)\<close> on the current content: the exact
  step first, the window loop only when the content does not include the old text.
\<close>

definition applyEdit :: "string \<Rightarrow> edit_operation \<Rightarrow> error + (match_kind \<times> string)" where
  "applyEdit modifiedContent e =
     (let normalizedOld = normalizeLineEndings (oldText e);
          normalizedNew = normalizeLineEndings (newText e)
      in if str_includes modifiedContent normalizedOld
         then Inr (ExactMatch, str_replace modifiedContent normalizedOld normalizedNew)
         else (case fuzzy_loop (split_lines normalizedOld) (split_lines modifiedContent)
                      normalizedNew 0 of
                 Some c \<Rightarrow> Inr (FuzzyMatch, c)
               | None \<Rightarrow> Inl (MatchFailure (oldText e))))"

text \<open>The whole loop over the edits, left to right on the content as edited so far.\<close>

fun applyEdits :: "string \<Rightarrow> edit_operation list \<Rightarrow> error + string" where
  "applyEdits modifiedContent [] = Inr modifiedContent"
| "applyEdits modifiedContent (e # es) =
     (case applyEdit modifiedContent e of
        Inl err \<Rightarrow> Inl err
      | Inr (k, c) \<Rightarrow> applyEdits c es)"

section \<open>The file system\<close>

text \<open>
  The file system the program runs against, as far as \<open>fs/promises\<close> shows it: a
  table from resolved locations (the names from the root down) to nodes, and the
  working directory of the process. The root directory is always there.
\<close>

type_synonym location = "string list"

datatype node = File string | Dir | Symlink string

record filesystem =
  nodes :: "(location \<times> node) list"
  cwd :: location

definition SLASH :: char where
  "SLASH = CHR 0x2F"

definition isAbsolute :: "string \<Rightarrow> bool" where
  "isAbsolute p = (p \<noteq> [] \<and> hd p = SLASH)"

definition lookup :: "(location \<times> node) list \<Rightarrow> location \<Rightarrow> node option" where
  "lookup ns q = (if q = [] then Some Dir else map_of ns q)"

text \<open>
  Path resolution of the operating system, component by component from the
  directory \<open>cur\<close>: empty components and \<open>.\<close> are skipped, \<open>..\<close> goes to the parent
  of the directory reached, a symbolic link is replaced by its target (at most
  \<open>fuel\<close> times, then \<open>ELOOP\<close>; the last component only when \<open>follow\<close> is set). The
  last component may be missing: the location returned then has no node, and its
  parent is a directory.
\<close>

fun namei :: "nat \<Rightarrow> (location \<times> node) list \<Rightarrow> bool \<Rightarrow> location \<Rightarrow> string list
    \<Rightarrow> errno + location" where
  "namei fuel ns follow cur [] = Inr cur"
| "namei fuel ns follow cur (s # rest) =
     (if s = [] \<or> s = ''.'' then namei fuel ns follow cur rest
      else if s = ''..'' then namei fuel ns follow (butlast cur) rest
      else
        (case lookup ns (cur @ [s]) of
           None \<Rightarrow> if rest = [] then Inr (cur @ [s]) else Inl ENOENT
         | Some Dir \<Rightarrow> namei fuel ns follow (cur @ [s]) rest
         | Some (File c) \<Rightarrow> if rest = [] then Inr (cur @ [s]) else Inl ENOTDIR
         | Some (Symlink t) \<Rightarrow>
             if rest = [] \<and> \<not> follow then Inr (cur @ [s])
             else
               (case fuel of
                  0 \<Rightarrow> Inl ELOOP
                | Suc f \<Rightarrow>
                    namei f ns follow (if isAbsolute t then [] else cur)
                      (str_split SLASH t @ rest))))"

definition SYMLOOP_MAX :: nat where
  "SYMLOOP_MAX = 40"

definition resolve :: "filesystem \<Rightarrow> bool \<Rightarrow> string \<Rightarrow> errno + location" where
  "resolve fs follow p =
     (if p = [] then Inl ENOENT
      else namei SYMLOOP_MAX (nodes fs) follow (if isAbsolute p then [] else cwd fs)
             (str_split SLASH p))"

text \<open>\<open>fs.access(p)\<close>: resolves when the path names a node, rejects otherwise.\<close>

definition fs_access :: "filesystem \<Rightarrow> string \<Rightarrow> errno + unit" where
  "fs_access fs p =
     (case resolve fs True p of
        Inl e \<Rightarrow> Inl e
      | Inr q \<Rightarrow> (case lookup (nodes fs) q of None \<Rightarrow> Inl ENOENT | Some n \<Rightarrow> Inr ()))"

text \<open>\<open>fs.readFile(p, 'utf-8')\<close>.\<close>

definition fs_readFile :: "filesystem \<Rightarrow> string \<Rightarrow> errno + string" where
  "fs_readFile fs p =
     (case resolve fs True p of
        Inl e \<Rightarrow> Inl e
      | Inr q \<Rightarrow>
          (case lookup (nodes fs) q of
             None \<Rightarrow> Inl ENOENT
           | Some (File c) \<Rightarrow> Inr c
           | Some Dir \<Rightarrow> Inl EISDIR
           | Some (Symlink t) \<Rightarrow> Inl ELOOP))"

text \<open>
  \<open>fs.writeFile(p, content, 'utf-8')\<close>: creates the file in an existing directory
  or replaces the content of an existing file.
\<close>

definition fs_writeFile :: "filesystem \<Rightarrow> string \<Rightarrow> string \<Rightarrow> errno + filesystem" where
  "fs_writeFile fs p content =
     (case resolve fs True p of
        Inl e \<Rightarrow> Inl e
      | Inr q \<Rightarrow>
          (case lookup (nodes fs) q of
             Some Dir \<Rightarrow> Inl EISDIR
           | Some (Symlink t) \<Rightarrow> Inl ELOOP
           | _ \<Rightarrow> Inr (fs\<lparr>nodes := AList.update q (File content) (nodes fs)\<rparr>)))"

text \<open>
  \<open>fs.rename(src, dst)\<close>, the \<open>rename(2)\<close> of the operating system: the last
  components are not followed; a destination that is a file or a link is
  replaced by a source that is not a directory, an empty directory by a
  directory; everything below the source moves with it.
\<close>

definition has_children :: "(location \<times> node) list \<Rightarrow> location \<Rightarrow> bool" where
  "has_children ns q = list_ex (\<lambda>(q', n). strict_prefix q q') ns"

definition move_nodes :: "(location \<times> node) list \<Rightarrow> location \<Rightarrow> location
    \<Rightarrow> (location \<times> node) list" where
  "move_nodes ns qs qd =
     map (\<lambda>(q, n). if prefix qs q then (qd @ drop (length qs) q, n) else (q, n))
       (filter (\<lambda>(q, n). \<not> prefix qd q) ns)"

definition fs_rename :: "filesystem \<Rightarrow> string \<Rightarrow> string \<Rightarrow> errno + filesystem" where
  "fs_rename fs src dst =
     (case resolve fs False src of
        Inl e \<Rightarrow> Inl e
      | Inr qs \<Rightarrow>
          (case resolve fs False dst of
             Inl e \<Rightarrow> Inl e
           | Inr qd \<Rightarrow>
               (case lookup (nodes fs) qs of
                  None \<Rightarrow> Inl ENOENT
                | Some n \<Rightarrow>
                    if qs = qd then Inr fs
                    else if qs = [] \<or> qd = [] then Inl EINVAL
                    else if n = Dir \<and> prefix qs qd then Inl EINVAL
                    else
                      (case lookup (nodes fs) qd of
                         None \<Rightarrow> Inr (fs\<lparr>nodes := move_nodes (nodes fs) qs qd\<rparr>)
                       | Some Dir \<Rightarrow>
                           if n \<noteq> Dir then Inl EISDIR
                           else if has_children (nodes fs) qd then Inl ENOTEMPTY
                           else Inr (fs\<lparr>nodes := move_nodes (nodes fs) qs qd\<rparr>)
                       | Some m \<Rightarrow>
                           if n = Dir then Inl ENOTDIR
                           else Inr (fs\<lparr>nodes := move_nodes (nodes fs) qs qd\<rparr>)))))"

section \<open>applyFileEdits\<close>

text \<open>
  \<open>createTwoFilesPatch\<close> of the \<open>diff\<close> package is a parameter: a function of the
  two file names, the two texts and the two headers.
\<close>

type_synonym patcher = "string \<Rightarrow> string \<Rightarrow> string \<Rightarrow> string \<Rightarrow> string \<Rightarrow> string \<Rightarrow> string"

definition createUnifiedDiff :: "patcher \<Rightarrow> string \<Rightarrow> string \<Rightarrow> string \<Rightarrow> string" where
  "createUnifiedDiff createTwoFilesPatch originalContent newContent filepath =
     (let normalizedOriginal = normalizeLineEndings originalContent;
          normalizedNew = normalizeLineEndings newContent
      in createTwoFilesPatch filepath filepath normalizedOriginal normalizedNew
           ''original'' ''modified'')"

lemma str_includes_length: "str_includes s sub \<Longrightarrow> length sub \<le> length s"
  by (induction s) (auto dest: prefix_length_le)

text \<open>\<open>while (diff.includes('`'.repeat(numBackticks))) numBackticks++\<close>.\<close>

function backticks_loop :: "string \<Rightarrow> nat \<Rightarrow> nat" where
  "backticks_loop diff numBackticks =
     (if str_includes diff (replicate numBackticks BACKTICK)
      then backticks_loop diff (Suc numBackticks)
      else numBackticks)"
  by pat_completeness auto
termination
  by (relation "measure (\<lambda>(diff, numBackticks). Suc (length diff) - numBackticks)")
     (auto dest: str_includes_length)

declare backticks_loop.simps [simp del]

definition formatDiff :: "string \<Rightarrow> string" where
  "formatDiff diff =
     (let numBackticks = backticks_loop diff 3
      in replicate numBackticks BACKTICK @ ''diff'' @ [LF] @ diff
         @ replicate numBackticks BACKTICK @ [LF, LF])"

text \<open>
  \<open>applyFileEdits(filePath, edits, dryRun)\<close>: the outcome (the formatted diff, or
  the failure thrown) and the file system it leaves.
\<close>

definition applyFileEdits :: "patcher \<Rightarrow> filesystem \<Rightarrow> string \<Rightarrow> edit_operation list \<Rightarrow> bool
    \<Rightarrow> (error + string) \<times> filesystem" where
  "applyFileEdits createTwoFilesPatch fs filePath edits dryRun =
     (case fs_readFile fs filePath of
        Inl e \<Rightarrow> (Inl (IOFailure e), fs)
      | Inr raw \<Rightarrow>
          (let content = normalizeLineEndings raw in
           case applyEdits content edits of
             Inl err \<Rightarrow> (Inl err, fs)
           | Inr modifiedContent \<Rightarrow>
               (let diff = createUnifiedDiff createTwoFilesPatch content modifiedContent filePath;
                    formattedDiff = formatDiff diff
                in if \<not> dryRun then
                     (case fs_writeFile fs filePath modifiedContent of
                        Inl e \<Rightarrow> (Inl (IOFailure e), fs)
                      | Inr fs' \<Rightarrow> (Inr formattedDiff, fs'))
                   else (Inr formattedDiff, fs))))"

section \<open>The path module\<close>

text \<open>
  The functions of Node's \<open>path\<close> module that the program calls, in their POSIX
  form. \<open>normalizeString\<close> works on the components between slashes: empty
  components and \<open>.\<close> are dropped, \<open>..\<close> removes the component before it, and
  where there is none it is kept when \<open>allowAboveRoot\<close> is set and dropped
  otherwise.
\<close>

fun normalizeString :: "bool \<Rightarrow> string list \<Rightarrow> string list \<Rightarrow> string list" where
  "normalizeString allowAboveRoot res [] = res"
| "normalizeString allowAboveRoot res (s # rest) =
     (if s = [] \<or> s = ''.'' then normalizeString allowAboveRoot res rest
      else if s = ''..'' then
        (if res \<noteq> [] \<and> last res \<noteq> ''..''
         then normalizeString allowAboveRoot (butlast res) rest
         else if allowAboveRoot then normalizeString allowAboveRoot (res @ [''..'']) rest
         else normalizeString allowAboveRoot res rest)
      else normalizeString allowAboveRoot (res @ [s]) rest)"

text \<open>\<open>path.normalize(p)\<close>.\<close>

definition path_normalize :: "string \<Rightarrow> string" where
  "path_normalize p =
     (if p = [] then ''.''
      else
        (let absolute = isAbsolute p;
             trailingSeparator = (last p = SLASH);
             body = str_join SLASH (normalizeString (\<not> absolute) [] (str_split SLASH p))
         in if body = [] then (if absolute then ''/'' else if trailingSeparator then ''./'' else ''.'')
            else (if absolute then ''/'' else []) @ body
                 @ (if trailingSeparator then ''/'' else [])))"

text \<open>\<open>path.join(...args)\<close>: the non-empty arguments joined by a slash, normalized.\<close>

definition path_join :: "string list \<Rightarrow> string" where
  "path_join args =
     (let parts = filter (\<lambda>arg. arg \<noteq> []) args
      in if parts = [] then ''.'' else path_normalize (str_join SLASH parts))"

text \<open>
  \<open>path.dirname(p)\<close>: the scan from the right skips trailing slashes, then the
  last component, and cuts at the slash before it; position \<open>0\<close> is not scanned.
\<close>

definition path_dirname :: "string \<Rightarrow> string" where
  "path_dirname p =
     (if p = [] then ''.''
      else
        (let hasRoot = (hd p = SLASH);
             scanned = dropWhile (\<lambda>c. c \<noteq> SLASH) (dropWhile (\<lambda>c. c = SLASH) (rev (tl p)));
             endpos = length scanned
         in if scanned = [] then (if hasRoot then ''/'' else ''.'')
            else if hasRoot \<and> endpos = 1 then ''//''
            else take endpos p))"

section \<open>The path sandbox\<close>

text \<open>
  Modelled from the spec: \<open>validatePath\<close> of \<open>src/utils/path-utils.ts\<close>, which
  the handlers import and whose source is not at hand. The definitions of this
  section follow section 4.1 of the specification: the candidate path is made
  absolute and canonicalized lexically; its components are then resolved one by
  one, a symbolic link being followed when links are followed, and otherwise
  replaced by its target when the cache knows it and rejected when not; a
  component that is missing fails with a missing ancestor, except the last one,
  or, with \<open>checkParentExists\<close> off, everything after the first existing
  ancestor; the resolved path and the existing ancestor it hangs from are then
  compared with the allowed roots, component by component.
\<close>

record sandbox =
  allowedDirectories :: "string list"
  symlinksMap :: "(string \<times> string) list"
  noFollowSymlinks :: bool

text \<open>
  Modelled from the spec: steps 1 and 2 of \<open>validatePath\<close>, which is not among the
  sources. The candidate path, joined to the working directory when it is
  relative, with \<open>.\<close> and \<open>..\<close> collapsed.
\<close>

definition canonicalize :: "filesystem \<Rightarrow> string \<Rightarrow> location" where
  "canonicalize fs p =
     normalizeString False [] ((if isAbsolute p then [] else cwd fs) @ str_split SLASH p)"

text \<open>
  Modelled from the spec: the validated path as \<open>validatePath\<close>, which is not
  among the sources, hands it to the handlers: absolute, its components joined
  by slashes.
\<close>

definition render_location :: "location \<Rightarrow> string" where
  "render_location q = SLASH # str_join SLASH q"

text \<open>
  Modelled from the spec: steps 3, 4 and 6 of \<open>validatePath\<close>, which is not among
  the sources. The walk returns the existing ancestor that has to be inside the
  sandbox and the resolved path.
\<close>

fun sandbox_walk :: "nat \<Rightarrow> sandbox \<Rightarrow> (location \<times> node) list \<Rightarrow> bool \<Rightarrow> location
    \<Rightarrow> string list \<Rightarrow> rejection + (location \<times> location)" where
  "sandbox_walk fuel sb ns checkParentExists cur [] = Inr (cur, cur)"
| "sandbox_walk fuel sb ns checkParentExists cur (s # rest) =
     (if s = [] \<or> s = ''.'' then sandbox_walk fuel sb ns checkParentExists cur rest
      else if s = ''..'' then sandbox_walk fuel sb ns checkParentExists (butlast cur) rest
      else
        (case (if noFollowSymlinks sb then map_of (symlinksMap sb) (render_location (cur @ [s]))
               else None) of
           Some target \<Rightarrow>
             (case fuel of
                0 \<Rightarrow> Inl UnresolvableSymlink
              | Suc f \<Rightarrow>
                  sandbox_walk f sb ns checkParentExists [] (str_split SLASH target @ rest))
         | None \<Rightarrow>
             (case lookup ns (cur @ [s]) of
                Some (Symlink t) \<Rightarrow>
                  if noFollowSymlinks sb then Inl UnresolvableSymlink
                  else
                    (case fuel of
                       0 \<Rightarrow> Inl UnresolvableSymlink
                     | Suc f \<Rightarrow>
                         sandbox_walk f sb ns checkParentExists (if isAbsolute t then [] else cur)
                           (str_split SLASH t @ rest))
              | Some Dir \<Rightarrow> sandbox_walk fuel sb ns checkParentExists (cur @ [s]) rest
              | Some (File c) \<Rightarrow>
                  if rest = [] then Inr (cur @ [s], cur @ [s]) else Inl MissingAncestor
              | None \<Rightarrow>
                  if checkParentExists
                  then (if rest = [] then Inr (cur, cur @ [s]) else Inl MissingAncestor)
                  else Inr (cur, normalizeString False (cur @ [s]) rest))))"

text \<open>
  Modelled from the spec: the comparison of step 5 of \<open>validatePath\<close>, which is
  not among the sources. A root \<open>/a/b\<close> matches \<open>/a/b\<close> and \<open>/a/b/...\<close>, never
  \<open>/a/bc\<close>.
\<close>

definition inside :: "sandbox \<Rightarrow> filesystem \<Rightarrow> location \<Rightarrow> bool" where
  "inside sb fs q = list_ex (\<lambda>root. prefix (canonicalize fs root) q) (allowedDirectories sb)"

text \<open>
  Modelled from the spec: the canonical resolution of a candidate path by
  \<open>validatePath\<close>, which is not among the sources: the existing ancestor and the
  resolved path, or the rejection met on the way.
\<close>

definition canonical_resolution :: "sandbox \<Rightarrow> filesystem \<Rightarrow> bool \<Rightarrow> string
    \<Rightarrow> rejection + (location \<times> location)" where
  "canonical_resolution sb fs checkParentExists p =
     sandbox_walk SYMLOOP_MAX sb (nodes fs) checkParentExists [] (canonicalize fs p)"

text \<open>
  Modelled from the spec: \<open>validatePath\<close> of \<open>src/utils/path-utils.ts\<close>, which
  is not among the sources: the resolution, then the comparison with the
  allowed roots; the first match accepts, and without one the path is rejected
  as outside the sandbox.
\<close>

definition validatePath :: "sandbox \<Rightarrow> filesystem \<Rightarrow> bool \<Rightarrow> string \<Rightarrow> rejection + string" where
  "validatePath sb fs checkParentExists p =
     (case canonical_resolution sb fs checkParentExists p of
        Inl r \<Rightarrow> Inl r
      | Inr (anchor, resolved) \<Rightarrow>
          if inside sb fs anchor \<and> inside sb fs resolved then Inr (render_location resolved)
          else Inl OutsideSandbox)"



text \<open>Components that hold no slash.\<close>

definition slash_free :: "string list \<Rightarrow> bool" where
  "slash_free xs = list_all (\<lambda>s. SLASH \<notin> set s) xs"

text \<open>
  A chain of directories: every location on the way down to \<open>cur\<close>, \<open>cur\<close>
  included, is a directory of the file system. A settled location hangs from
  such a chain, is made of names, and is not a symbolic link: nothing is left
  to resolve in it.
\<close>

definition chain :: "(location \<times> node) list \<Rightarrow> location \<Rightarrow> bool" where
  "chain ns cur = (\<forall>p. prefix p cur \<and> p \<noteq> [] \<longrightarrow> lookup ns p = Some Dir)"



section \<open>searchFiles\<close>

text \<open>
  A directory entry as \<open>fs.readdir(dir, {withFileTypes: true})\<close> returns it. The
  file system is seen through \<open>readdir\<close> alone; \<open>path.relative\<close> and \<open>minimatch\<close>
  are parameters as well, and so is \<open>String.prototype.toLowerCase\<close>, the case
  mapping of the language, which the walk applies to the entry name and to the
  pattern. The two numbers are integers.
\<close>

record dirent =
  name :: string
  isDirectory :: bool

record search_args =
  readdir :: "string \<Rightarrow> errno + dirent list"
  path_relative :: "string \<Rightarrow> string \<Rightarrow> string"
  minimatch :: "string \<Rightarrow> string \<Rightarrow> bool"
  toLowerCase :: "string \<Rightarrow> string"
  rootPath :: string
  pattern :: string
  excludePatterns :: "string list"
  maxDepth :: int
  maxResults :: int

text \<open>
  The state of a walk: the \<open>results\<close> array, and the directories listed so far,
  each with the depth it was listed at.
\<close>

record search_state =
  results :: "string list"
  listed :: "(string \<times> int) list"

definition shouldExclude :: "search_args \<Rightarrow> string \<Rightarrow> bool" where
  "shouldExclude a fullPath =
     (let relativePath = path_relative a (rootPath a) fullPath
      in list_ex (\<lambda>pat. minimatch a relativePath
                     (if CHR ''*'' \<in> set pat then pat else ''**/'' @ pat @ ''/**''))
           (excludePatterns a))"

definition name_matches :: "search_args \<Rightarrow> dirent \<Rightarrow> bool" where
  "name_matches a entry = str_includes (toLowerCase a (name entry)) (toLowerCase a (pattern a))"

text \<open>
  The body of \<open>if (entry.name.toLowerCase().includes(pattern.toLowerCase()))\<close>: the
  push, guarded by the bound, and whether the \<open>return\<close> after it is taken.
\<close>

definition record_match :: "search_args \<Rightarrow> dirent \<Rightarrow> string \<Rightarrow> search_state \<Rightarrow> search_state" where
  "record_match a entry fullPath st =
     (if name_matches a entry \<and> int (length (results st)) < maxResults a
      then st\<lparr>results := results st @ [fullPath]\<rparr>
      else st)"

definition returns_after_match :: "search_args \<Rightarrow> dirent \<Rightarrow> search_state \<Rightarrow> bool" where
  "returns_after_match a entry st =
     (name_matches a entry \<and> int (length (results st)) \<ge> maxResults a)"

text \<open>
  \<open>search(currentPath, currentDepth)\<close> and its \<open>for (const entry of entries)\<close>
  loop. A rejected \<open>readdir\<close> ends the whole walk.
\<close>

function search :: "search_args \<Rightarrow> string \<Rightarrow> int \<Rightarrow> search_state \<Rightarrow> error + search_state"
  and search_loop :: "search_args \<Rightarrow> string \<Rightarrow> int \<Rightarrow> dirent list \<Rightarrow> search_state
    \<Rightarrow> error + search_state" where
  "search a currentPath currentDepth st =
     (if currentDepth \<ge> maxDepth a then Inr st
      else if int (length (results st)) \<ge> maxResults a then Inr st
      else
        (case readdir a currentPath of
           Inl e \<Rightarrow> Inl (IOFailure e)
         | Inr entries \<Rightarrow>
             search_loop a currentPath currentDepth entries
               (st\<lparr>listed := listed st @ [(currentPath, currentDepth)]\<rparr>)))"
| "search_loop a currentPath currentDepth [] st = Inr st"
| "search_loop a currentPath currentDepth (entry # rest) st =
     (let fullPath = path_join [currentPath, name entry] in
      if shouldExclude a fullPath then search_loop a currentPath currentDepth rest st
      else
        (let st1 = record_match a entry fullPath st in
         if returns_after_match a entry st1 then Inr st1
         else if isDirectory entry \<and> int (length (results st1)) < maxResults a then
           (case search a fullPath (currentDepth + 1) st1 of
              Inl e \<Rightarrow> Inl e
            | Inr st2 \<Rightarrow> search_loop a currentPath currentDepth rest st2)
         else search_loop a currentPath currentDepth rest st1))"
  by pat_completeness auto
termination
  by (relation "inv_image (less_than <*lex*> less_than)
        (\<lambda>x. case x of
           Inl (a, currentPath, currentDepth, st) \<Rightarrow>
             (if currentDepth \<ge> maxDepth a then 0
              else 2 * nat (maxDepth a - currentDepth) + 1, 0)
         | Inr (a, currentPath, currentDepth, entries, st) \<Rightarrow>
             (2 * nat (maxDepth a - (currentDepth + 1)) + 2, length entries))")
     auto

declare search.simps [simp del]

text \<open>\<open>searchFiles\<close>: the walk from the root at depth \<open>0\<close> with no results yet.\<close>

definition searchFiles_walk :: "search_args \<Rightarrow> error + search_state" where
  "searchFiles_walk a = search a (rootPath a) 0 \<lparr>results = [], listed = []\<rparr>"

definition searchFiles :: "search_args \<Rightarrow> error + string list" where
  "searchFiles a = (case searchFiles_walk a of Inl e \<Rightarrow> Inl e | Inr st \<Rightarrow> Inr (results st))"

text \<open>Every directory listed so far was listed at a depth from \<open>0\<close> up to, not including, \<open>maxDepth\<close>.\<close>

definition depths_ok :: "search_args \<Rightarrow> search_state \<Rightarrow> bool" where
  "depths_ok a st = list_all (\<lambda>(p, k). 0 \<le> k \<and> k < maxDepth a) (listed st)"

section \<open>The operation handlers\<close>

text \<open>
  The permission flags as the handlers read them, and the arguments of a request
  as \<open>safeParse\<close> returns them; \<open>None\<close> stands for arguments that do not parse.
  The \<open>path\<close> of a rename request is the field \<open>path_r\<close>.
\<close>

record permissions =
  create :: bool
  edit :: bool
  move :: bool
  delete :: bool
  rename :: bool
  fullAccess :: bool

record write_args =
  path :: string
  content :: string

record move_args =
  source :: string
  destination :: string

record rename_args =
  path_r :: string
  newName :: string

text \<open>
  \<open>handleModifyFile\<close>. \<open>modify_try\<close> is the body of its \<open>try\<close> block; the \<open>catch\<close>
  clause replaces whatever was thrown there by \<open>Cannot modify file: file does not
  exist\<close>.
\<close>

definition modify_try :: "permissions \<Rightarrow> filesystem \<Rightarrow> string \<Rightarrow> write_args
    \<Rightarrow> (error + string) \<times> filesystem" where
  "modify_try perms fs validPath a =
     (case fs_access fs validPath of
        Inl e \<Rightarrow> (Inl (IOFailure e), fs)
      | Inr u \<Rightarrow>
          if \<not> edit perms \<and> \<not> fullAccess perms then (Inl PermissionDenied, fs)
          else
            (case fs_writeFile fs validPath (content a) of
               Inl e \<Rightarrow> (Inl (IOFailure e), fs)
             | Inr fs' \<Rightarrow> (Inr (''Successfully modified '' @ path a), fs')))"

definition handleModifyFile :: "sandbox \<Rightarrow> permissions \<Rightarrow> filesystem \<Rightarrow> write_args option
    \<Rightarrow> (error + string) \<times> filesystem" where
  "handleModifyFile sb perms fs args =
     (case args of
        None \<Rightarrow> (Inl ValidationError, fs)
      | Some a \<Rightarrow>
          (case validatePath sb fs True (path a) of
             Inl r \<Rightarrow> (Inl (PathRejected r), fs)
           | Inr validPath \<Rightarrow>
               (case modify_try perms fs validPath a of
                  (Inl thrown, fs') \<Rightarrow> (Inl NotFound, fs')
                | (Inr text, fs') \<Rightarrow> (Inr text, fs'))))"

text \<open>
  \<open>handleMoveFile\<close>. The failure of the probe of the destination's parent is
  \<open>Destination parent directory does not exist\<close>.
\<close>

definition handleMoveFile :: "sandbox \<Rightarrow> permissions \<Rightarrow> filesystem \<Rightarrow> move_args option
    \<Rightarrow> (error + string) \<times> filesystem" where
  "handleMoveFile sb perms fs args =
     (case args of
        None \<Rightarrow> (Inl ValidationError, fs)
      | Some a \<Rightarrow>
          if \<not> move perms \<and> \<not> fullAccess perms then (Inl PermissionDenied, fs)
          else
            (case validatePath sb fs True (source a) of
               Inl r \<Rightarrow> (Inl (PathRejected r), fs)
             | Inr validSourcePath \<Rightarrow>
                 (case validatePath sb fs False (destination a) of
                    Inl r \<Rightarrow> (Inl (PathRejected r), fs)
                  | Inr validDestPath \<Rightarrow>
                      (let destParentDir = path_dirname validDestPath in
                       case fs_access fs destParentDir of
                         Inl e \<Rightarrow> (Inl NotFound, fs)
                       | Inr u \<Rightarrow>
                           (case fs_rename fs validSourcePath validDestPath of
                              Inl e \<Rightarrow> (Inl (IOFailure e), fs)
                            | Inr fs' \<Rightarrow>
                                (Inr (''Successfully moved '' @ source a @ '' to ''
                                      @ destination a), fs'))))))"

text \<open>
  \<open>handleRenameFile\<close>. The probe of the destination throws \<open>... already exists\<close>
  when it succeeds; the \<open>catch\<close> clause lets an \<open>ENOENT\<close> pass and throws anything
  else again.
\<close>

definition handleRenameFile :: "sandbox \<Rightarrow> permissions \<Rightarrow> filesystem \<Rightarrow> rename_args option
    \<Rightarrow> (error + string) \<times> filesystem" where
  "handleRenameFile sb perms fs args =
     (case args of
        None \<Rightarrow> (Inl ValidationError, fs)
      | Some a \<Rightarrow>
          if \<not> rename perms \<and> \<not> fullAccess perms then (Inl PermissionDenied, fs)
          else
            (case validatePath sb fs True (path_r a) of
               Inl r \<Rightarrow> (Inl (PathRejected r), fs)
             | Inr validSourcePath \<Rightarrow>
                 (let directory = path_dirname validSourcePath;
                      destinationPath = path_join [directory, newName a]
                  in case validatePath sb fs True destinationPath of
                       Inl r \<Rightarrow> (Inl (PathRejected r), fs)
                     | Inr validDestPath \<Rightarrow>
                         (case fs_access fs validDestPath of
                            Inr u \<Rightarrow> (Inl AlreadyExists, fs)
                          | Inl e \<Rightarrow>
                              if e \<noteq> ENOENT then (Inl (IOFailure e), fs)
                              else
                                (case fs_rename fs validSourcePath validDestPath of
                                   Inl e' \<Rightarrow> (Inl (IOFailure e'), fs)
                                 | Inr fs' \<Rightarrow>
                                     (Inr (''Successfully renamed '' @ path_r a
                                           @ '' to '' @ newName a), fs'))))))"

section \<open>Line-ending conventions\<close>

text \<open>
  A text is a list of lines written out with line endings: \<open>render\<close> joins the
  lines under one convention, \<open>\n\<close> or \<open>\r\n\<close>; \<open>render_mixed\<close> takes the
  convention of each line ending from a list, and \<open>\n\<close> once the list is used up.
  A line itself holds neither character.
\<close>

datatype eol = EolLF | EolCRLF

fun terminator :: "eol \<Rightarrow> string" where
  "terminator EolLF = [LF]"
| "terminator EolCRLF = [CR, LF]"

fun render :: "eol \<Rightarrow> string list \<Rightarrow> string" where
  "render e [] = []"
| "render e [l] = l"
| "render e (l # m # ls) = l @ terminator e @ render e (m # ls)"

fun render_mixed :: "eol list \<Rightarrow> string list \<Rightarrow> string" where
  "render_mixed es [] = []"
| "render_mixed es [l] = l"
| "render_mixed [] (l # m # ls) = l @ terminator EolLF @ render_mixed [] (m # ls)"
| "render_mixed (e # es) (l # m # ls) = l @ terminator e @ render_mixed es (m # ls)"

definition clean_lines :: "string list \<Rightarrow> bool" where
  "clean_lines ls = list_all (\<lambda>l. CR \<notin> set l \<and> LF \<notin> set l) ls"

section \<open>Example inputs\<close>

text \<open>
  A stand-in for \<open>createTwoFilesPatch\<close> that returns the new text, and a file
  system with one directory \<open>/sandbox\<close> holding three files.
\<close>

definition example_patch :: patcher where
  "example_patch oldFileName newFileName oldStr newStr oldHeader newHeader = newStr"

definition example_fs :: filesystem where
  "example_fs =
     \<lparr>nodes =
        [([''sandbox''], Dir),
         ([''sandbox'', ''notes.txt''], File ''foo\<newline>bar\<newline>''),
         ([''sandbox'', ''dos.txt''], File [CHR ''a'', CR, LF, CHR ''b'', CR, LF]),
         ([''sandbox'', ''indented.txt''], File ''  indented\<newline>'')],
      cwd = []\<rparr>"

text \<open>
  A directory \<open>/data\<close> with five files whose names match \<open>report\<close> and a
  subdirectory, which holds one more and a directory of its own.
\<close>

definition example_readdir :: "string \<Rightarrow> errno + dirent list" where
  "example_readdir p =
     (if p = ''/data'' then
        Inr [\<lparr>name = ''report1.txt'', isDirectory = False\<rparr>,
             \<lparr>name = ''report2.txt'', isDirectory = False\<rparr>,
             \<lparr>name = ''sub'', isDirectory = True\<rparr>,
             \<lparr>name = ''Report3.txt'', isDirectory = False\<rparr>,
             \<lparr>name = ''report4.txt'', isDirectory = False\<rparr>,
             \<lparr>name = ''report5.txt'', isDirectory = False\<rparr>]
      else if p = ''/data/sub'' then
        Inr [\<lparr>name = ''deep'', isDirectory = True\<rparr>,
             \<lparr>name = ''report6.txt'', isDirectory = False\<rparr>]
      else if p = ''/data/sub/deep'' then
        Inr [\<lparr>name = ''report7.txt'', isDirectory = False\<rparr>]
      else Inl ENOENT)"

text \<open>
  The case mapping on the names of the example, which are ASCII: the letters
  \<open>A\<close> to \<open>Z\<close> are folded and every other character is kept.
\<close>

definition lower_of :: "(char \<times> char) list" where
  "lower_of = zip ''ABCDEFGHIJKLMNOPQRSTUVWXYZ'' ''abcdefghijklmnopqrstuvwxyz''"

definition toLowerCase_ascii :: "string \<Rightarrow> string" where
  "toLowerCase_ascii s = map (\<lambda>c. case map_of lower_of c of None \<Rightarrow> c | Some l \<Rightarrow> l) s"

definition example_search :: "int \<Rightarrow> int \<Rightarrow> search_args" where
  "example_search depth bound =
     \<lparr>readdir = example_readdir,
      path_relative = (\<lambda>from to. drop (Suc (length from)) to),
      minimatch = (\<lambda>p glob. False),
      toLowerCase = toLowerCase_ascii,
      rootPath = ''/data'',
      pattern = ''REPORT'',
      excludePatterns = [''node_modules''],
      maxDepth = depth,
      maxResults = bound\<rparr>"

text \<open>
  A sandbox with the single root \<open>/sandbox\<close> that follows links, and a file
  system with files inside and outside of it.
\<close>

definition example_sandbox :: sandbox where
  "example_sandbox =
     \<lparr>allowedDirectories = [''/sandbox''], symlinksMap = [], noFollowSymlinks = False\<rparr>"

definition example_tree :: filesystem where
  "example_tree =
     \<lparr>nodes =
        [([''sandbox''], Dir),
         ([''sandbox'', ''docs''], Dir),
         ([''sandbox'', ''docs'', ''a.txt''], File ''A''),
         ([''sandbox'', ''b.txt''], File ''B''),
         ([''etc''], Dir),
         ([''etc'', ''passwd''], File ''root'')],
      cwd = []\<rparr>"

definition no_permissions :: permissions where
  "no_permissions =
     \<lparr>create = False, edit = False, move = False, delete = False, rename = False,
      fullAccess = False\<rparr>"


section \<open>Properties of the edit engine and of the file system\<close>

lemma applyEdit_error: "applyEdit c e = Inl err \<Longrightarrow> err = MatchFailure (oldText e)"
  by (auto simp: applyEdit_def Let_def split: if_splits option.splits)

lemma applyEdits_error: "applyEdits c es = Inl err \<Longrightarrow> \<exists>e \<in> set es. err = MatchFailure (oldText e)"
proof (induction es arbitrary: c)
  case Nil
  then show ?case by simp
next
  case (Cons e es)
  show ?case
  proof (cases "applyEdit c e")
    case (Inl err')
    with Cons.prems show ?thesis by (auto dest: applyEdit_error)
  next
    case (Inr kc)
    with Cons.prems Cons.IH[of "snd kc"] show ?thesis by (cases kc) auto
  qed
qed

lemma lookup_update_file:
  "lookup ns q = Some (File a) \<Longrightarrow>
   lookup (AList.update q (File b) ns) x = (if x = q then Some (File b) else lookup ns x)"
  by (auto simp: lookup_def update_conv' split: if_splits)

lemma namei_update_file:
  assumes "lookup ns q = Some (File a)"
  shows "namei fuel (AList.update q (File b) ns) follow cur todo = namei fuel ns follow cur todo"
  using assms
proof (induction fuel ns follow cur todo rule: namei.induct)
  case (1 fuel ns follow cur)
  then show ?case by simp
next
  case (2 fuel ns follow cur s rest)
  note isfile = \<open>lookup ns q = Some (File a)\<close>
  let ?ns' = "AList.update q (File b) ns"
  have lk: "lookup ?ns' x = (if x = q then Some (File b) else lookup ns x)" for x
    by (rule lookup_update_file[OF isfile])
  show ?case
  proof (cases "s = [] \<or> s = ''.''")
    case True
    from "2.IH"(1)[OF True isfile] True show ?thesis by simp
  next
    case skip: False
    show ?thesis
    proof (cases "s = ''..''")
      case True
      from "2.IH"(2)[OF skip True isfile] True show ?thesis by simp
    next
      case name: False
      show ?thesis
      proof (cases "lookup ns (cur @ [s])")
        case None
        with isfile have "cur @ [s] \<noteq> q" by auto
        with skip name None show ?thesis by (simp add: lk)
      next
        case (Some n)
        show ?thesis
        proof (cases n)
          case (File c)
          with skip name Some show ?thesis by (simp add: lk)
        next
          case Dir
          with isfile Some have "cur @ [s] \<noteq> q" by auto
          with "2.IH"(3)[OF skip name Some Dir isfile] skip name Some Dir
          show ?thesis by (simp add: lk)
        next
          case (Symlink t)
          with isfile Some have neq: "cur @ [s] \<noteq> q" by auto
          show ?thesis
          proof (cases "rest = [] \<and> \<not> follow")
            case True
            with skip name neq Some Symlink show ?thesis by (simp add: lk)
          next
            case nofin: False
            show ?thesis
            proof (cases fuel)
              case 0
              with skip name neq Some Symlink nofin show ?thesis by (auto simp: lk)
            next
              case (Suc f)
              from "2.IH"(4)[OF skip name Some Symlink nofin Suc isfile]
                skip name neq Some Symlink nofin Suc
              show ?thesis by (auto simp: lk)
            qed
          qed
        qed
      qed
    qed
  qed
qed


lemma resolve_update_file:
  "lookup (nodes fs) q = Some (File a) \<Longrightarrow>
   resolve (fs\<lparr>nodes := AList.update q (File b) (nodes fs)\<rparr>) follow p = resolve fs follow p"
  by (simp add: resolve_def namei_update_file)

lemma fs_readFile_Inr:
  "fs_readFile fs p = Inr raw \<longleftrightarrow>
   (\<exists>q. resolve fs True p = Inr q \<and> lookup (nodes fs) q = Some (File raw))"
  by (auto simp: fs_readFile_def split: sum.splits option.splits node.splits)

lemma write_after_read:
  assumes "fs_readFile fs p = Inr raw"
  shows "\<exists>fs'. fs_writeFile fs p c = Inr fs'"
  using assms by (auto simp: fs_readFile_Inr fs_writeFile_def)

lemma read_after_write:
  assumes "fs_readFile fs p = Inr raw" and "fs_writeFile fs p c = Inr fs'"
  shows "fs_readFile fs' p = Inr c"
proof -
  from assms(1) obtain q where q: "resolve fs True p = Inr q" "lookup (nodes fs) q = Some (File raw)"
    by (auto simp: fs_readFile_Inr)
  with assms(2) have fs': "fs' = fs\<lparr>nodes := AList.update q (File c) (nodes fs)\<rparr>"
    by (simp add: fs_writeFile_def)
  have "resolve fs' True p = Inr q"
    unfolding fs' using q by (simp add: resolve_update_file)
  moreover have "lookup (nodes fs') q = Some (File c)"
    unfolding fs' using q(2) by (simp add: lookup_update_file)
  ultimately show ?thesis by (auto simp: fs_readFile_Inr)
qed

lemma CR_neq_LF [simp]: "CR \<noteq> LF" "LF \<noteq> CR"
  by (simp_all add: CR_def LF_def)

lemma str_includes_Nil [simp]: "str_includes s []"
  by (induction s) auto

lemma str_includes_iff: "str_includes s sub \<longleftrightarrow> (\<exists>p t. s = p @ sub @ t)"
proof (induction s)
  case Nil
  then show ?case by auto
next
  case (Cons c cs)
  show ?case
  proof
    assume "str_includes (c # cs) sub"
    then consider "prefix sub (c # cs)" | "str_includes cs sub" by auto
    then show "\<exists>p t. c # cs = p @ sub @ t"
    proof cases
      case 1
      then obtain t where "c # cs = sub @ t" by (auto simp: prefix_def)
      then have "c # cs = [] @ sub @ t" by simp
      then show ?thesis by blast
    next
      case 2
      with Cons.IH obtain p t where "cs = p @ sub @ t" by blast
      then have "c # cs = (c # p) @ sub @ t" by simp
      then show ?thesis by blast
    qed
  next
    assume "\<exists>p t. c # cs = p @ sub @ t"
    then obtain p t where pt: "c # cs = p @ sub @ t" by blast
    show "str_includes (c # cs) sub"
    proof (cases p)
      case Nil
      with pt have "prefix sub (c # cs)" by (auto simp: prefix_def)
      then show ?thesis by simp
    next
      case (Cons d p')
      with pt have "cs = p' @ sub @ t" by simp
      with Cons.IH have "str_includes cs sub" by blast
      then show ?thesis by simp
    qed
  qed
qed

lemma nle_clean_append: "CR \<notin> set l \<Longrightarrow> normalizeLineEndings (l @ s) = l @ normalizeLineEndings s"
proof (induction l)
  case Nil
  then show ?case by simp
next
  case (Cons c l)
  then have c: "c \<noteq> CR" and IH: "normalizeLineEndings (l @ s) = l @ normalizeLineEndings s" by auto
  show ?case
  proof (cases "l @ s")
    case Nil
    then show ?thesis by simp
  next
    case (Cons d r)
    with c have "normalizeLineEndings (c # l @ s) = c # normalizeLineEndings (l @ s)" by simp
    with IH show ?thesis by simp
  qed
qed

lemma nle_render: "clean_lines ls \<Longrightarrow> normalizeLineEndings (render e ls) = render EolLF ls"
proof (induction e ls rule: render.induct)
  case (1 e)
  then show ?case by simp
next
  case (2 e l)
  then have "CR \<notin> set l" by (simp add: clean_lines_def)
  from nle_clean_append[OF this, of "[]"] show ?case by simp
next
  case (3 e l m ls)
  then have l: "CR \<notin> set l" and IH: "normalizeLineEndings (render e (m # ls)) = render EolLF (m # ls)"
    by (simp_all add: clean_lines_def)
  show ?case
  proof (cases e)
    case EolLF
    have "normalizeLineEndings (LF # render e (m # ls)) = LF # normalizeLineEndings (render e (m # ls))"
      by (cases "render e (m # ls)") simp_all
    with l IH EolLF show ?thesis by (simp add: nle_clean_append)
  next
    case EolCRLF
    with l IH show ?thesis by (simp add: nle_clean_append)
  qed
qed

lemma nle_append:
  assumes "p = [] \<or> last p \<noteq> CR \<or> s = [] \<or> hd s \<noteq> LF"
  shows "normalizeLineEndings (p @ s) = normalizeLineEndings p @ normalizeLineEndings s"
  using assms
proof (induction p rule: induct_list012)
  case 1
  then show ?case by simp
next
  case (2 c)
  then show ?case by (cases s) auto
next
  case (3 c d r)
  show ?case
  proof (cases "c = CR \<and> d = LF")
    case True
    show ?thesis
    proof (cases "r = []")
      case True
      with \<open>c = CR \<and> d = LF\<close> show ?thesis by simp
    next
      case False
      with 3 True show ?thesis by simp
    qed
  next
    case False
    with 3 show ?thesis by auto
  qed
qed

lemma render_hd: "clean_lines ls \<Longrightarrow> render EolCRLF ls \<noteq> [] \<Longrightarrow> hd (render EolCRLF ls) \<noteq> LF"
proof (induction EolCRLF ls rule: render.induct)
  case 1
  then show ?case by simp
next
  case (2 l)
  then show ?case by (cases l) (auto simp: clean_lines_def)
next
  case (3 l m ls)
  then show ?case by (cases l) (auto simp: clean_lines_def)
qed

lemma render_last: "clean_lines ls \<Longrightarrow> render EolCRLF ls \<noteq> [] \<Longrightarrow> last (render EolCRLF ls) \<noteq> CR"
proof (induction EolCRLF ls rule: render.induct)
  case 1
  then show ?case by simp
next
  case (2 l)
  then have "l \<noteq> []" "CR \<notin> set l" by (auto simp: clean_lines_def)
  then have "last l \<noteq> CR" using last_in_set by metis
  then show ?case by simp
next
  case (3 l m ls)
  then show ?case by (auto simp: clean_lines_def)
qed

lemma str_includes_render:
  assumes "clean_lines F" and "clean_lines O'"
    and "str_includes (render c F) (render c O')"
  shows "str_includes (render EolLF F) (render EolLF O')"
proof (cases c)
  case EolLF
  with assms show ?thesis by simp
next
  case EolCRLF
  let ?x = "render EolCRLF O'"
  show ?thesis
  proof (cases "?x = []")
    case True
    with nle_render[OF assms(2), of EolCRLF] have "render EolLF O' = []" by simp
    then show ?thesis by simp
  next
    case False
    from assms(3) EolCRLF obtain p t where pt: "render EolCRLF F = p @ ?x @ t"
      by (auto simp: str_includes_iff)
    have "hd (?x @ t) \<noteq> LF" using render_hd[OF assms(2) False] False by simp
    then have "normalizeLineEndings (p @ ?x @ t) = normalizeLineEndings p @ normalizeLineEndings (?x @ t)"
      using False by (intro nle_append) simp
    moreover have "normalizeLineEndings (?x @ t) = normalizeLineEndings ?x @ normalizeLineEndings t"
      using render_last[OF assms(2) False] by (intro nle_append) simp
    ultimately have "render EolLF F = normalizeLineEndings p @ render EolLF O' @ normalizeLineEndings t"
      using nle_render[OF assms(1), of EolCRLF] nle_render[OF assms(2), of EolCRLF] pt by simp
    then show ?thesis unfolding str_includes_iff by blast
  qed
qed

lemma applyFileEdits_success:
  assumes "fs_readFile fs p = Inr raw"
    and "applyEdits (normalizeLineEndings raw) edits = Inr final"
    and "fs_writeFile fs p final = Inr fs'"
  shows "applyFileEdits P fs p edits dryRun =
         (Inr (formatDiff (createUnifiedDiff P (normalizeLineEndings raw) final p)),
          if dryRun then fs else fs')"
  using assms by (simp add: applyFileEdits_def Let_def)

lemma nle_LF_Cons: "normalizeLineEndings (LF # s) = LF # normalizeLineEndings s"
  by (cases s) simp_all

lemma nle_render_mixed:
  "clean_lines ls \<Longrightarrow> normalizeLineEndings (render_mixed es ls) = render EolLF ls"
proof (induction es ls rule: render_mixed.induct)
  case (1 es)
  then show ?case by simp
next
  case (2 es l)
  then have "CR \<notin> set l" by (simp add: clean_lines_def)
  from nle_clean_append[OF this, of "[]"] show ?case by simp
next
  case (3 l m ls)
  then have l: "CR \<notin> set l"
    and IH: "normalizeLineEndings (render_mixed [] (m # ls)) = render EolLF (m # ls)"
    by (simp_all add: clean_lines_def)
  then show ?case by (simp add: nle_clean_append nle_LF_Cons)
next
  case (4 e es l m ls)
  then have l: "CR \<notin> set l"
    and IH: "normalizeLineEndings (render_mixed es (m # ls)) = render EolLF (m # ls)"
    by (simp_all add: clean_lines_def)
  then show ?case by (cases e) (simp_all add: nle_clean_append nle_LF_Cons)
qed

lemma applyFileEdits_dry: "snd (applyFileEdits P fs p edits True) = fs"
  by (simp add: applyFileEdits_def Let_def split: sum.splits)

lemma applyFileEdits_failure_keeps:
  "fst (applyFileEdits P fs p edits dryRun) = Inl e \<Longrightarrow> snd (applyFileEdits P fs p edits dryRun) = fs"
  by (auto simp: applyFileEdits_def Let_def split: sum.splits if_splits)

lemma applyFileEdits_changed:
  assumes "snd (applyFileEdits P fs p edits dryRun) \<noteq> fs"
  shows "\<not> dryRun \<and> (\<exists>raw final. fs_readFile fs p = Inr raw
            \<and> applyEdits (normalizeLineEndings raw) edits = Inr final
            \<and> fs_writeFile fs p final = Inr (snd (applyFileEdits P fs p edits dryRun)))"
  using assms by (auto simp: applyFileEdits_def Let_def split: sum.splits if_splits)

text \<open>
  The exact step on a new text without a dollar sign: the occurrence at the
  least position is replaced by the new text as given.
\<close>

lemma indexOf_Some:
  "indexOf s sub = Some i \<Longrightarrow> i \<le> length s \<and> prefix sub (drop i s)"
proof (induction s arbitrary: i)
  case Nil
  then show ?case by (auto split: if_splits)
next
  case (Cons c cs)
  show ?case
  proof (cases "prefix sub (c # cs)")
    case True
    with Cons.prems show ?thesis by simp
  next
    case False
    with Cons.prems obtain j where j: "indexOf cs sub = Some j" and i: "i = Suc j"
      by (auto split: option.splits)
    from Cons.IH[OF j] i show ?thesis by simp
  qed
qed

lemma indexOf_least:
  "indexOf s sub = Some i \<Longrightarrow> j < i \<Longrightarrow> \<not> prefix sub (drop j s)"
proof (induction s arbitrary: i j)
  case Nil
  then show ?case by (auto split: if_splits)
next
  case (Cons c cs)
  show ?case
  proof (cases "prefix sub (c # cs)")
    case True
    with Cons.prems show ?thesis by simp
  next
    case False
    with Cons.prems(1) obtain k where k: "indexOf cs sub = Some k" and i: "i = Suc k"
      by (auto split: option.splits)
    show ?thesis
    proof (cases j)
      case 0
      with False show ?thesis by simp
    next
      case (Suc j')
      with Cons.prems(2) i have "j' < k" by simp
      from Cons.IH[OF k this] Suc show ?thesis by simp
    qed
  qed
qed

lemma str_includes_indexOf: "str_includes s sub \<longleftrightarrow> (\<exists>i. indexOf s sub = Some i)"
  by (induction s) (auto split: option.splits)

lemma getSubstitution_literal:
  "DOLLAR \<notin> set template \<Longrightarrow> getSubstitution matched preceding following template = template"
  by (induction matched preceding following template rule: getSubstitution.induct) auto

lemma exact_step_literal:
  assumes "str_includes c (normalizeLineEndings (oldText e))"
    and "DOLLAR \<notin> set (normalizeLineEndings (newText e))"
  shows "\<exists>i. indexOf c (normalizeLineEndings (oldText e)) = Some i
           \<and> applyEdit c e
               = Inr (ExactMatch,
                   take i c @ normalizeLineEndings (newText e)
                   @ drop (i + length (normalizeLineEndings (oldText e))) c)"
proof -
  from assms(1) obtain i where i: "indexOf c (normalizeLineEndings (oldText e)) = Some i"
    by (auto simp: str_includes_indexOf)
  with assms show ?thesis
    by (simp add: applyEdit_def str_replace_def getSubstitution_literal)
qed

lemma record_match_length:
  "int (length (results st)) \<le> max 0 (maxResults a)
   \<Longrightarrow> int (length (results (record_match a entry fullPath st))) \<le> max 0 (maxResults a)"
  by (auto simp: record_match_def)

lemma record_match_listed [simp]: "listed (record_match a entry fullPath st) = listed st"
  by (simp add: record_match_def)

lemma record_match_full:
  "maxResults a \<le> int (length (results st)) \<Longrightarrow> record_match a entry fullPath st = st"
  by (simp add: record_match_def)

lemma search_bound:
  "search a cp d st = Inr st' \<Longrightarrow> int (length (results st)) \<le> max 0 (maxResults a)
     \<Longrightarrow> int (length (results st')) \<le> max 0 (maxResults a)"
  "search_loop a cp d es st = Inr st' \<Longrightarrow> int (length (results st)) \<le> max 0 (maxResults a)
     \<Longrightarrow> int (length (results st')) \<le> max 0 (maxResults a)"
proof (induction a cp d st and a cp d es st arbitrary: st' and st' rule: search_search_loop.induct)
  case (1 a currentPath currentDepth st)
  from "1.prems" show ?case
    by (auto simp: search.simps(1)[of a currentPath currentDepth st] split: if_splits sum.splits
        dest!: "1.IH"[rotated 3])
next
  case (2 a currentPath currentDepth st)
  then show ?case by (simp add: search.simps)
next
  case (3 a currentPath currentDepth entry rest st)
  let ?fullPath = "path_join [currentPath, name entry]"
  let ?st1 = "record_match a entry ?fullPath st"
  have b1: "int (length (results ?st1)) \<le> max 0 (maxResults a)"
    using "3.prems"(2) by (rule record_match_length)
  show ?case
  proof (cases "shouldExclude a ?fullPath")
    case True
    with "3.prems" "3.IH"(1)[OF refl True] show ?thesis by (simp add: search.simps Let_def)
  next
    case notex: False
    show ?thesis
    proof (cases "returns_after_match a entry ?st1")
      case True
      with notex "3.prems"(1) b1 show ?thesis by (simp add: search.simps Let_def)
    next
      case noret: False
      show ?thesis
      proof (cases "isDirectory entry \<and> int (length (results ?st1)) < maxResults a")
        case True
        with notex noret "3.prems"(1) obtain st2 where
          s2: "search a ?fullPath (currentDepth + 1) ?st1 = Inr st2"
          and l2: "search_loop a currentPath currentDepth rest st2 = Inr st'"
          by (auto simp: search.simps Let_def split: sum.splits)
        from "3.IH"(2)[OF refl notex refl noret True s2 b1]
        have "int (length (results st2)) \<le> max 0 (maxResults a)" .
        from "3.IH"(3)[OF refl notex refl noret True s2 l2 this] show ?thesis .
      next
        case False
        with notex noret "3.prems"(1)
        have "search_loop a currentPath currentDepth rest ?st1 = Inr st'"
          by (auto simp: search.simps Let_def)
        from "3.IH"(4)[OF refl notex refl noret False this b1] show ?thesis .
      qed
    qed
  qed
qed

lemma depths_ok_record_match [simp]:
  "depths_ok a (record_match a entry fullPath st) = depths_ok a st"
  by (simp add: depths_ok_def)

lemma search_depths:
  "search a cp d st = Inr st' \<Longrightarrow> 0 \<le> d \<Longrightarrow> depths_ok a st \<Longrightarrow> depths_ok a st'"
  "search_loop a cp d es st = Inr st' \<Longrightarrow> 0 \<le> d \<Longrightarrow> depths_ok a st \<Longrightarrow> depths_ok a st'"
proof (induction a cp d st and a cp d es st arbitrary: st' and st' rule: search_search_loop.induct)
  case (1 a currentPath currentDepth st)
  show ?case
  proof (cases "currentDepth \<ge> maxDepth a \<or> int (length (results st)) \<ge> maxResults a")
    case True
    with "1.prems" show ?thesis
      by (auto simp: search.simps(1)[of a currentPath currentDepth st] split: if_splits)
  next
    case False
    with "1.prems"(1) obtain entries where
      rd: "readdir a currentPath = Inr entries"
      and lp: "search_loop a currentPath currentDepth entries
                 (st\<lparr>listed := listed st @ [(currentPath, currentDepth)]\<rparr>) = Inr st'"
      by (auto simp: search.simps(1)[of a currentPath currentDepth st] split: sum.splits)
    from False "1.prems"(2,3)
    have "depths_ok a (st\<lparr>listed := listed st @ [(currentPath, currentDepth)]\<rparr>)"
      by (simp add: depths_ok_def)
    with "1.IH"[OF _ _ rd lp "1.prems"(2)] False show ?thesis by simp
  qed
next
  case (2 a currentPath currentDepth st)
  then show ?case by (simp add: search.simps)
next
  case (3 a currentPath currentDepth entry rest st)
  let ?fullPath = "path_join [currentPath, name entry]"
  let ?st1 = "record_match a entry ?fullPath st"
  have b1: "depths_ok a ?st1" using "3.prems"(3) by simp
  have d1: "0 \<le> currentDepth + 1" using "3.prems"(2) by simp
  show ?case
  proof (cases "shouldExclude a ?fullPath")
    case True
    with "3.prems" "3.IH"(1)[OF refl True] show ?thesis by (simp add: search.simps Let_def)
  next
    case notex: False
    show ?thesis
    proof (cases "returns_after_match a entry ?st1")
      case True
      with notex "3.prems"(1) b1 show ?thesis by (simp add: search.simps Let_def)
    next
      case noret: False
      show ?thesis
      proof (cases "isDirectory entry \<and> int (length (results ?st1)) < maxResults a")
        case True
        with notex noret "3.prems"(1) obtain st2 where
          s2: "search a ?fullPath (currentDepth + 1) ?st1 = Inr st2"
          and l2: "search_loop a currentPath currentDepth rest st2 = Inr st'"
          by (auto simp: search.simps Let_def split: sum.splits)
        from "3.IH"(2)[OF refl notex refl noret True s2 d1 b1]
        have "depths_ok a st2" .
        from "3.IH"(3)[OF refl notex refl noret True s2 l2 "3.prems"(2) this] show ?thesis .
      next
        case False
        with notex noret "3.prems"(1)
        have "search_loop a currentPath currentDepth rest ?st1 = Inr st'"
          by (auto simp: search.simps Let_def)
        from "3.IH"(4)[OF refl notex refl noret False this "3.prems"(2) b1] show ?thesis .
      qed
    qed
  qed
qed

lemma search_loop_full:
  "maxResults a \<le> int (length (results st)) \<Longrightarrow> search_loop a cp d es st = Inr st"
proof (induction es)
  case Nil
  then show ?case by (simp add: search.simps)
next
  case (Cons entry rest)
  then show ?case
    by (simp add: search.simps Let_def record_match_full returns_after_match_def)
qed

lemma search_full:
  "maxResults a \<le> int (length (results st)) \<Longrightarrow> search a cp d st = Inr st"
  by (simp add: search.simps)

lemma search_at_limit: "maxDepth a \<le> d \<Longrightarrow> search a cp d st = Inr st"
  by (simp add: search.simps)











lemma chain_Nil [simp]: "chain ns []"
  by (simp add: chain_def)











lemma slash_free_append [simp]: "slash_free (xs @ ys) \<longleftrightarrow> slash_free xs \<and> slash_free ys"
  by (simp add: slash_free_def)











section \<open>The claims about the edit engine\<close>

text \<open>
  C5. \<open>applyFileEdits\<close> writes the stored file only in a run that is not a dry
  run and in which every edit found a match. A dry run, and a run that ends in a
  failure, leave the file system as it was; a file system that has changed comes
  from a run with \<open>dryRun\<close> false whose edits all applied, and it is the result
  of writing the final content. The only failure of the edit loop is the
  \<open>MatchFailure\<close> of one of the edits. A dry run repeated on the file system the
  first dry run left returns the same outcome and the same file system.
\<close>

theorem applyFileEdits_persistence:
  "(dryRun \<or> (\<exists>e. fst (applyFileEdits P fs p edits dryRun) = Inl e)
      \<longrightarrow> snd (applyFileEdits P fs p edits dryRun) = fs)
   \<and> (snd (applyFileEdits P fs p edits dryRun) \<noteq> fs
      \<longrightarrow> \<not> dryRun \<and> (\<exists>raw final. fs_readFile fs p = Inr raw
            \<and> applyEdits (normalizeLineEndings raw) edits = Inr final
            \<and> fs_writeFile fs p final = Inr (snd (applyFileEdits P fs p edits dryRun))))
   \<and> (applyEdits c edits = Inl err \<longrightarrow> (\<exists>e \<in> set edits. err = MatchFailure (oldText e)))
   \<and> applyFileEdits P (snd (applyFileEdits P fs p edits True)) p edits True
       = applyFileEdits P fs p edits True"
proof (intro conjI impI)
  assume "dryRun \<or> (\<exists>e. fst (applyFileEdits P fs p edits dryRun) = Inl e)"
  then show "snd (applyFileEdits P fs p edits dryRun) = fs"
    using applyFileEdits_dry[of P fs p edits] applyFileEdits_failure_keeps[of P fs p edits dryRun]
    by (cases dryRun) auto
next
  assume "snd (applyFileEdits P fs p edits dryRun) \<noteq> fs"
  then show "\<not> dryRun" using applyFileEdits_changed by blast
next
  assume "snd (applyFileEdits P fs p edits dryRun) \<noteq> fs"
  then show "\<exists>raw final. fs_readFile fs p = Inr raw
            \<and> applyEdits (normalizeLineEndings raw) edits = Inr final
            \<and> fs_writeFile fs p final = Inr (snd (applyFileEdits P fs p edits dryRun))"
    using applyFileEdits_changed by blast
next
  assume "applyEdits c edits = Inl err"
  then show "\<exists>e \<in> set edits. err = MatchFailure (oldText e)" by (rule applyEdits_error)
next
  show "applyFileEdits P (snd (applyFileEdits P fs p edits True)) p edits True
       = applyFileEdits P fs p edits True"
    by (simp add: applyFileEdits_dry)
qed

theorem applyFileEdits_persistence_witness:
  "fst (applyFileEdits example_patch example_fs ''/sandbox/notes.txt''
          [\<lparr>oldText = ''bar'', newText = ''baz''\<rparr>, \<lparr>oldText = ''qux'', newText = ''z''\<rparr>] False)
     = Inl (MatchFailure ''qux'')
   \<and> snd (applyFileEdits example_patch example_fs ''/sandbox/notes.txt''
          [\<lparr>oldText = ''bar'', newText = ''baz''\<rparr>, \<lparr>oldText = ''qux'', newText = ''z''\<rparr>] False)
     = example_fs
   \<and> snd (applyFileEdits example_patch example_fs ''/sandbox/notes.txt''
          [\<lparr>oldText = ''bar'', newText = ''baz''\<rparr>] True)
     = example_fs
   \<and> snd (applyFileEdits example_patch example_fs ''/sandbox/notes.txt''
          [\<lparr>oldText = ''bar'', newText = ''baz''\<rparr>] False)
     \<noteq> example_fs
   \<and> fs_readFile (snd (applyFileEdits example_patch example_fs ''/sandbox/notes.txt''
          [\<lparr>oldText = ''bar'', newText = ''baz''\<rparr>] False)) ''/sandbox/notes.txt''
     = Inr ''foo\<newline>baz\<newline>''"
proof -
  let ?good = "[\<lparr>oldText = ''bar'', newText = ''baz''\<rparr>]"
  let ?bad = "[\<lparr>oldText = ''bar'', newText = ''baz''\<rparr>, \<lparr>oldText = ''qux'', newText = ''z''\<rparr>]"
  have failing: "fst (applyFileEdits example_patch example_fs ''/sandbox/notes.txt'' ?bad False)
      = Inl (MatchFailure ''qux'')"
    by code_simp
  have changed: "snd (applyFileEdits example_patch example_fs ''/sandbox/notes.txt'' ?good False)
      \<noteq> example_fs"
    by code_simp
  have stored: "fs_readFile (snd (applyFileEdits example_patch example_fs ''/sandbox/notes.txt''
      ?good False)) ''/sandbox/notes.txt'' = Inr ''foo\<newline>baz\<newline>''"
    by code_simp
  from applyFileEdits_persistence[of False example_patch example_fs "''/sandbox/notes.txt''" ?bad]
    failing
  have kept: "snd (applyFileEdits example_patch example_fs ''/sandbox/notes.txt'' ?bad False)
      = example_fs"
    by blast
  from applyFileEdits_persistence[of True example_patch example_fs "''/sandbox/notes.txt''" ?good]
  have dry: "snd (applyFileEdits example_patch example_fs ''/sandbox/notes.txt'' ?good True)
      = example_fs"
    by blast
  from failing kept dry changed stored show ?thesis by blast
qed

text \<open>
  C6, where the code departs from it. When the normalized old text occurs in the
  current content, the edit takes the exact step and never the window loop, and
  it replaces the occurrence at the least position only. What it puts there is
  the replacement template of \<open>String.replace\<close> expanded, which is the new text
  as given only when that holds no dollar sign (lemma \<open>exact_step_literal\<close>).
  Here the content is \<open>price: X\<close>, the edit replaces \<open>X\<close> by \<open>$$5\<close>, and the
  result is \<open>price: $5\<close>.
\<close>

theorem exact_replace_expands_dollar:
  "str_includes ''price: X'' ''X''
   \<and> applyEdit ''price: X'' \<lparr>oldText = ''X'', newText = ''$$5''\<rparr> = Inr (ExactMatch, ''price: $5'')
   \<and> ''price: $5'' \<noteq> ''price: $$5''"
  by code_simp

text \<open>
  C7, amended to the line endings \<open>\n\<close> and \<open>\r\n\<close>. A file and an edit that hold
  the same lines with different line endings (each line ending of the file, of
  the old text and of the new text being \<open>\n\<close> or \<open>\r\n\<close> on its own): when the
  old text occurs in the file once both are written under one convention, the
  edit takes the exact step and does not fail; the result, the diff and the
  content written are those of the texts written with \<open>\n\<close> throughout.
\<close>

theorem line_endings_never_mismatch:
  assumes "clean_lines fileLines" and "clean_lines oldLines" and "clean_lines replacement"
    and "str_includes (render c fileLines) (render c oldLines)"
    and "fs_readFile fs p = Inr (render_mixed es1 fileLines)"
  shows "\<exists>fs'. fs_writeFile fs p
            (str_replace (render EolLF fileLines) (render EolLF oldLines) (render EolLF replacement))
            = Inr fs'
         \<and> applyEdit (normalizeLineEndings (render_mixed es1 fileLines))
              \<lparr>oldText = render_mixed es2 oldLines, newText = render_mixed es3 replacement\<rparr>
            = Inr (ExactMatch,
                str_replace (render EolLF fileLines) (render EolLF oldLines) (render EolLF replacement))
         \<and> applyFileEdits P fs p
              [\<lparr>oldText = render_mixed es2 oldLines, newText = render_mixed es3 replacement\<rparr>] dryRun
            = (Inr (formatDiff (createUnifiedDiff P (render EolLF fileLines)
                  (str_replace (render EolLF fileLines) (render EolLF oldLines) (render EolLF replacement)) p)),
               if dryRun then fs else fs')"
proof -
  let ?res = "str_replace (render EolLF fileLines) (render EolLF oldLines) (render EolLF replacement)"
  let ?e = "\<lparr>oldText = render_mixed es2 oldLines, newText = render_mixed es3 replacement\<rparr>"
  from write_after_read[OF assms(5)] obtain fs' where w: "fs_writeFile fs p ?res = Inr fs'" by blast
  have inc: "str_includes (render EolLF fileLines) (render EolLF oldLines)"
    by (rule str_includes_render[OF assms(1,2,4)])
  have step: "applyEdit (normalizeLineEndings (render_mixed es1 fileLines)) ?e = Inr (ExactMatch, ?res)"
    using inc by (simp add: applyEdit_def nle_render_mixed assms(1,2,3))
  then have all: "applyEdits (normalizeLineEndings (render_mixed es1 fileLines)) [?e] = Inr ?res" by simp
  from applyFileEdits_success[OF assms(5) all w, of P dryRun] w step
  show ?thesis by (simp add: nle_render_mixed assms(1))
qed

theorem line_endings_never_mismatch_witness:
  "clean_lines [''alpha'', ''beta'', ''gamma'', ''delta''] \<and> clean_lines [''beta'', ''gamma'']
   \<and> clean_lines [''BETA'', ''GAMMA'']
   \<and> str_includes (render EolCRLF [''alpha'', ''beta'', ''gamma'', ''delta''])
         (render EolCRLF [''beta'', ''gamma''])
   \<and> render_mixed [EolCRLF, EolLF, EolCRLF] [''alpha'', ''beta'', ''gamma'', ''delta'']
       = ''alpha'' @ [CR, LF] @ ''beta'' @ [LF] @ ''gamma'' @ [CR, LF] @ ''delta''
   \<and> render_mixed [EolCRLF] [''beta'', ''gamma''] = ''beta'' @ [CR, LF] @ ''gamma''
   \<and> fs_readFile
         \<lparr>nodes = [([''w.txt''], File (''alpha'' @ [CR, LF] @ ''beta'' @ [LF] @ ''gamma'' @ [CR, LF] @ ''delta''))],
          cwd = []\<rparr>
         ''/w.txt'' = Inr (''alpha'' @ [CR, LF] @ ''beta'' @ [LF] @ ''gamma'' @ [CR, LF] @ ''delta'')
   \<and> applyFileEdits example_patch
         \<lparr>nodes = [([''w.txt''], File (''alpha'' @ [CR, LF] @ ''beta'' @ [LF] @ ''gamma'' @ [CR, LF] @ ''delta''))],
          cwd = []\<rparr>
         ''/w.txt''
         [\<lparr>oldText = ''beta'' @ [CR, LF] @ ''gamma'', newText = ''BETA\<newline>GAMMA''\<rparr>]
         False
       = (Inr ''```diff\<newline>alpha\<newline>BETA\<newline>GAMMA\<newline>delta```\<newline>\<newline>'',
          \<lparr>nodes = [([''w.txt''], File ''alpha\<newline>BETA\<newline>GAMMA\<newline>delta'')], cwd = []\<rparr>)"
proof -
  let ?F = "[''alpha'', ''beta'', ''gamma'', ''delta'']" and ?O = "[''beta'', ''gamma'']"
  let ?N = "[''BETA'', ''GAMMA'']"
  let ?raw = "''alpha'' @ [CR, LF] @ ''beta'' @ [LF] @ ''gamma'' @ [CR, LF] @ ''delta''"
  let ?fs = "\<lparr>nodes = [([''w.txt''], File ?raw)], cwd = []\<rparr>"
  let ?out = "''alpha\<newline>BETA\<newline>GAMMA\<newline>delta''"
  have h1: "clean_lines ?F" and h2: "clean_lines ?O" and h3: "clean_lines ?N"
    by code_simp+
  have h4: "str_includes (render EolCRLF ?F) (render EolCRLF ?O)"
    by code_simp
  have f: "render_mixed [EolCRLF, EolLF, EolCRLF] ?F = ?raw" by code_simp
  have old: "render_mixed [EolCRLF] ?O = ''beta'' @ [CR, LF] @ ''gamma''" by code_simp
  have new: "render_mixed [] ?N = ''BETA\<newline>GAMMA''" by code_simp
  have rd: "fs_readFile ?fs ''/w.txt'' = Inr ?raw" by code_simp
  then have h5: "fs_readFile ?fs ''/w.txt'' = Inr (render_mixed [EolCRLF, EolLF, EolCRLF] ?F)"
    unfolding f .
  have res: "str_replace (render EolLF ?F) (render EolLF ?O) (render EolLF ?N) = ?out"
    by code_simp
  have wr: "fs_writeFile ?fs ''/w.txt'' ?out = Inr \<lparr>nodes = [([''w.txt''], File ?out)], cwd = []\<rparr>"
    by code_simp
  have fmt: "formatDiff (createUnifiedDiff example_patch (render EolLF ?F) ?out ''/w.txt'')
      = ''```diff\<newline>alpha\<newline>BETA\<newline>GAMMA\<newline>delta```\<newline>\<newline>''"
    by code_simp
  from line_endings_never_mismatch[OF h1 h2 h3 h4 h5, of "[EolCRLF]" "[]" example_patch False]
  have "applyFileEdits example_patch ?fs ''/w.txt''
         [\<lparr>oldText = ''beta'' @ [CR, LF] @ ''gamma'', newText = ''BETA\<newline>GAMMA''\<rparr>] False
       = (Inr ''```diff\<newline>alpha\<newline>BETA\<newline>GAMMA\<newline>delta```\<newline>\<newline>'',
          \<lparr>nodes = [([''w.txt''], File ?out)], cwd = []\<rparr>)"
    unfolding res fmt wr old new by auto
  with h1 h2 h3 h4 f old rd show ?thesis by blast
qed

text \<open>
  The claim as stated, for all line endings, is false: \<open>normalizeLineEndings\<close>
  rewrites \<open>\r\n\<close> only and leaves a lone \<open>\r\<close> as it is. A file that holds the
  lines \<open>alpha\<close> and \<open>beta\<close> separated by \<open>\r\<close> and an edit whose old text holds
  the same lines separated by \<open>\n\<close> differ in line-ending style only, and the
  edit fails with \<open>MatchFailure\<close>: the old text does not occur in the content,
  and the content is a single line for the window loop, shorter than the old
  text.
\<close>

theorem lone_cr_edit_fails:
  "str_split CR (''alpha'' @ [CR] @ ''beta'') = [''alpha'', ''beta'']
   \<and> str_split LF ''alpha\<newline>beta'' = [''alpha'', ''beta'']
   \<and> normalizeLineEndings (''alpha'' @ [CR] @ ''beta'') = ''alpha'' @ [CR] @ ''beta''
   \<and> normalizeLineEndings ''alpha\<newline>beta'' = ''alpha\<newline>beta''
   \<and> applyEdit (normalizeLineEndings (''alpha'' @ [CR] @ ''beta''))
         \<lparr>oldText = ''alpha\<newline>beta'', newText = ''ALPHA\<newline>beta''\<rparr>
       = Inl (MatchFailure ''alpha\<newline>beta'')
   \<and> applyFileEdits example_patch
         \<lparr>nodes = [([''mac.txt''], File (''alpha'' @ [CR] @ ''beta''))], cwd = []\<rparr> ''/mac.txt''
         [\<lparr>oldText = ''alpha\<newline>beta'', newText = ''ALPHA\<newline>beta''\<rparr>] False
       = (Inl (MatchFailure ''alpha\<newline>beta''),
          \<lparr>nodes = [([''mac.txt''], File (''alpha'' @ [CR] @ ''beta''))], cwd = []\<rparr>)"
  by code_simp

text \<open>
  C8, as the code has it. The content is \<open>"  indented\n"\<close> and the single edit
  replaces \<open>indented\<close> by \<open>changed\<close>. The old text occurs in the content, so the
  exact step places the edit and the window loop is not entered; the result is
  \<open>"  changed\n"\<close>, the two leading spaces being the part of the content before
  the occurrence.
\<close>

theorem indented_edit_is_exact:
  "applyEdit ''  indented\<newline>'' \<lparr>oldText = ''indented'', newText = ''changed''\<rparr>
     = Inr (ExactMatch, ''  changed\<newline>'')
   \<and> fs_readFile (snd (applyFileEdits P example_fs ''/sandbox/indented.txt''
         [\<lparr>oldText = ''indented'', newText = ''changed''\<rparr>] False)) ''/sandbox/indented.txt''
     = Inr ''  changed\<newline>''"
proof -
  have step: "applyEdit ''  indented\<newline>'' \<lparr>oldText = ''indented'', newText = ''changed''\<rparr>
     = Inr (ExactMatch, ''  changed\<newline>'')"
    by code_simp
  have rd: "fs_readFile example_fs ''/sandbox/indented.txt'' = Inr ''  indented\<newline>''"
    by code_simp
  have n: "normalizeLineEndings ''  indented\<newline>'' = ''  indented\<newline>''"
    by code_simp
  from step n have all: "applyEdits (normalizeLineEndings ''  indented\<newline>'')
      [\<lparr>oldText = ''indented'', newText = ''changed''\<rparr>] = Inr ''  changed\<newline>''"
    by simp
  from write_after_read[OF rd] obtain fs' where
    w: "fs_writeFile example_fs ''/sandbox/indented.txt'' ''  changed\<newline>'' = Inr fs'"
    by blast
  from applyFileEdits_success[OF rd all w, of P False] read_after_write[OF rd w] step
  show ?thesis by simp
qed

text \<open>
  The claim as stated, that the window loop locates the target, is false for
  this input.
\<close>

theorem indented_edit_not_fuzzy:
  "\<not> (\<exists>c. applyEdit ''  indented\<newline>'' \<lparr>oldText = ''indented'', newText = ''changed''\<rparr>
          = Inr (FuzzyMatch, c))"
proof -
  have "applyEdit ''  indented\<newline>'' \<lparr>oldText = ''indented'', newText = ''changed''\<rparr>
     = Inr (ExactMatch, ''  changed\<newline>'')"
    by code_simp
  then show ?thesis by simp
qed

text \<open>
  C10. A run of \<open>applyFileEdits\<close> with \<open>dryRun\<close> false that succeeds leaves the
  file holding the final content, which is made from the normalized content of
  the file. With no edits the final content is the normalized content itself:
  a file stored with \<open>\r\n\<close> is rewritten with \<open>\n\<close>.
\<close>

theorem applyFileEdits_rewrites_normalized:
  "(fst (applyFileEdits P fs p edits False) = Inr d
      \<longrightarrow> (\<exists>raw final. fs_readFile fs p = Inr raw
             \<and> applyEdits (normalizeLineEndings raw) edits = Inr final
             \<and> fs_readFile (snd (applyFileEdits P fs p edits False)) p = Inr final))
   \<and> (fs_readFile fs p = Inr raw
      \<longrightarrow> (\<exists>d'. fst (applyFileEdits P fs p [] False) = Inr d')
          \<and> fs_readFile (snd (applyFileEdits P fs p [] False)) p = Inr (normalizeLineEndings raw))"
proof (intro conjI impI)
  assume ok: "fst (applyFileEdits P fs p edits False) = Inr d"
  then obtain raw where raw: "fs_readFile fs p = Inr raw"
    by (auto simp: applyFileEdits_def split: sum.splits)
  with ok obtain final where final: "applyEdits (normalizeLineEndings raw) edits = Inr final"
    by (auto simp: applyFileEdits_def Let_def split: sum.splits)
  from write_after_read[OF raw] obtain fs' where w: "fs_writeFile fs p final = Inr fs'" by blast
  from applyFileEdits_success[OF raw final w, of P False]
  have "snd (applyFileEdits P fs p edits False) = fs'" by simp
  with read_after_write[OF raw w] raw final
  show "\<exists>raw final. fs_readFile fs p = Inr raw
             \<and> applyEdits (normalizeLineEndings raw) edits = Inr final
             \<and> fs_readFile (snd (applyFileEdits P fs p edits False)) p = Inr final"
    by auto
next
  assume raw: "fs_readFile fs p = Inr raw"
  from write_after_read[OF raw] obtain fs' where w: "fs_writeFile fs p (normalizeLineEndings raw) = Inr fs'"
    by blast
  have e: "applyEdits (normalizeLineEndings raw) [] = Inr (normalizeLineEndings raw)" by simp
  note run = applyFileEdits_success[OF raw e w, of P False]
  from run show "\<exists>d'. fst (applyFileEdits P fs p [] False) = Inr d'" by simp
  from run read_after_write[OF raw w]
  show "fs_readFile (snd (applyFileEdits P fs p [] False)) p = Inr (normalizeLineEndings raw)" by simp
qed

theorem applyFileEdits_rewrites_normalized_witness:
  "fs_readFile example_fs ''/sandbox/dos.txt'' = Inr [CHR ''a'', CR, LF, CHR ''b'', CR, LF]
   \<and> fs_readFile (snd (applyFileEdits example_patch example_fs ''/sandbox/dos.txt'' [] False))
        ''/sandbox/dos.txt'' = Inr ''a\<newline>b\<newline>''
   \<and> snd (applyFileEdits example_patch example_fs ''/sandbox/dos.txt'' [] False) \<noteq> example_fs"
proof -
  have rd: "fs_readFile example_fs ''/sandbox/dos.txt'' = Inr [CHR ''a'', CR, LF, CHR ''b'', CR, LF]"
    by code_simp
  have n: "normalizeLineEndings [CHR ''a'', CR, LF, CHR ''b'', CR, LF] = ''a\<newline>b\<newline>''"
    by code_simp
  from applyFileEdits_rewrites_normalized[of example_patch example_fs "''/sandbox/dos.txt''" "[]" "[]"
      "[CHR ''a'', CR, LF, CHR ''b'', CR, LF]"] rd n
  have after: "fs_readFile (snd (applyFileEdits example_patch example_fs ''/sandbox/dos.txt'' [] False))
        ''/sandbox/dos.txt'' = Inr ''a\<newline>b\<newline>''"
    by simp
  have "[CHR ''a'', CR, LF, CHR ''b'', CR, LF] \<noteq> ''a\<newline>b\<newline>''" by code_simp
  with rd after have "snd (applyFileEdits example_patch example_fs ''/sandbox/dos.txt'' [] False) \<noteq> example_fs"
    by auto
  with rd after show ?thesis by blast
qed

section \<open>The claim about searchFiles\<close>

text \<open>
  C9. A walk of \<open>searchFiles\<close> that returns, returns the \<open>results\<close> array, which
  holds at most \<open>maxResults\<close> entries (none when the bound is zero or negative),
  and it has listed directories at depths from \<open>0\<close> up to, not including,
  \<open>maxDepth\<close> only. \<open>search\<close> at a depth that has reached \<open>maxDepth\<close> returns at
  once, without listing the directory. Once the results have reached
  \<open>maxResults\<close>, \<open>search\<close> returns at once and the entry loop runs through
  whatever entries are left without adding a result and without listing a
  directory. On a directory with five matching files, \<open>maxDepth = 2\<close> and
  \<open>maxResults = 1\<close> give exactly one result, and only the root is listed.
\<close>

theorem searchFiles_bounded:
  "(searchFiles_walk a = Inr st \<longrightarrow>
      searchFiles a = Inr (results st)
      \<and> int (length (results st)) \<le> max 0 (maxResults a)
      \<and> (\<forall>(p, k) \<in> set (listed st). 0 \<le> k \<and> k < maxDepth a))
   \<and> (maxDepth a \<le> d \<longrightarrow> search a cp d st0 = Inr st0)
   \<and> (maxResults a \<le> int (length (results st0)) \<longrightarrow>
        search a cp d st0 = Inr st0 \<and> search_loop a cp d es st0 = Inr st0)"
proof (intro conjI impI)
  assume w: "searchFiles_walk a = Inr st"
  then show "searchFiles a = Inr (results st)" by (simp add: searchFiles_def)
  let ?st0 = "\<lparr>results = [], listed = []\<rparr>"
  from w have s: "search a (rootPath a) 0 ?st0 = Inr st" by (simp add: searchFiles_walk_def)
  from search_bound(1)[OF s] show "int (length (results st)) \<le> max 0 (maxResults a)" by simp
  have "depths_ok a ?st0" by (simp add: depths_ok_def)
  from search_depths(1)[OF s _ this] have "depths_ok a st" by simp
  then show "\<forall>(p, k) \<in> set (listed st). 0 \<le> k \<and> k < maxDepth a"
    by (simp add: depths_ok_def list_all_iff)
next
  assume "maxDepth a \<le> d"
  then show "search a cp d st0 = Inr st0" by (rule search_at_limit)
next
  assume f: "maxResults a \<le> int (length (results st0))"
  then show "search a cp d st0 = Inr st0" by (rule search_full)
  from f show "search_loop a cp d es st0 = Inr st0" by (rule search_loop_full)
qed

theorem searchFiles_bounded_witness:
  "searchFiles_walk (example_search 2 1)
     = Inr \<lparr>results = [''/data/report1.txt''], listed = [(''/data'', 0)]\<rparr>
   \<and> searchFiles (example_search 2 1) = Inr [''/data/report1.txt'']
   \<and> searchFiles_walk (example_search 2 10)
     = Inr \<lparr>results = [''/data/report1.txt'', ''/data/report2.txt'', ''/data/sub/report6.txt'',
                       ''/data/Report3.txt'', ''/data/report4.txt'', ''/data/report5.txt''],
            listed = [(''/data'', 0), (''/data/sub'', 1)]\<rparr>
   \<and> search (example_search 2 10) ''/data/sub/deep'' 2 \<lparr>results = [], listed = []\<rparr>
     = Inr \<lparr>results = [], listed = []\<rparr>
   \<and> search_loop (example_search 2 1) ''/data'' 0 [\<lparr>name = ''report9.txt'', isDirectory = False\<rparr>]
       \<lparr>results = [''/data/report1.txt''], listed = [(''/data'', 0)]\<rparr>
     = Inr \<lparr>results = [''/data/report1.txt''], listed = [(''/data'', 0)]\<rparr>"
proof -
  have w1: "searchFiles_walk (example_search 2 1)
     = Inr \<lparr>results = [''/data/report1.txt''], listed = [(''/data'', 0)]\<rparr>"
    by code_simp
  have w2: "searchFiles_walk (example_search 2 10)
     = Inr \<lparr>results = [''/data/report1.txt'', ''/data/report2.txt'', ''/data/sub/report6.txt'',
                       ''/data/Report3.txt'', ''/data/report4.txt'', ''/data/report5.txt''],
            listed = [(''/data'', 0), (''/data/sub'', 1)]\<rparr>"
    by code_simp
  have m: "maxDepth (example_search 2 10) \<le> 2"
    and f: "maxResults (example_search 2 1)
              \<le> int (length (results \<lparr>results = [''/data/report1.txt''], listed = [(''/data'', 0)]\<rparr>))"
    by (simp_all add: example_search_def)
  note t1 = searchFiles_bounded[of "example_search 2 1"
      "\<lparr>results = [''/data/report1.txt''], listed = [(''/data'', 0)]\<rparr>" 0 "''/data''"
      "\<lparr>results = [''/data/report1.txt''], listed = [(''/data'', 0)]\<rparr>"
      "[\<lparr>name = ''report9.txt'', isDirectory = False\<rparr>]"]
  note t2 = searchFiles_bounded[of "example_search 2 10" _ 2 "''/data/sub/deep''"
      "\<lparr>results = [], listed = []\<rparr>"]
  from t1 w1 f have a: "searchFiles (example_search 2 1) = Inr [''/data/report1.txt'']"
    and b: "search_loop (example_search 2 1) ''/data'' 0 [\<lparr>name = ''report9.txt'', isDirectory = False\<rparr>]
       \<lparr>results = [''/data/report1.txt''], listed = [(''/data'', 0)]\<rparr>
     = Inr \<lparr>results = [''/data/report1.txt''], listed = [(''/data'', 0)]\<rparr>"
    by simp_all
  from t2 m have c: "search (example_search 2 10) ''/data/sub/deep'' 2 \<lparr>results = [], listed = []\<rparr>
     = Inr \<lparr>results = [], listed = []\<rparr>"
    by blast
  from w1 a w2 c b show ?thesis by blast
qed

section \<open>The claims about the sandbox and the handlers\<close>




text \<open>
  C2, where the code departs from it. \<open>handleMoveFile\<close> does not probe the
  destination: no run of it ends in \<open>AlreadyExists\<close>. With the move permission
  granted and both files there, moving \<open>/sandbox/docs/a.txt\<close> to the existing
  \<open>/sandbox/b.txt\<close> succeeds, and \<open>/sandbox/b.txt\<close> then holds the content of the
  source, which is gone from its place.
\<close>

theorem move_overwrites_existing_destination:
  "fs_readFile example_tree ''/sandbox/b.txt'' = Inr ''B''
   \<and> handleMoveFile example_sandbox (no_permissions\<lparr>move := True\<rparr>) example_tree
        (Some \<lparr>source = ''/sandbox/docs/a.txt'', destination = ''/sandbox/b.txt''\<rparr>)
     = (Inr ''Successfully moved /sandbox/docs/a.txt to /sandbox/b.txt'',
        \<lparr>nodes =
           [([''sandbox''], Dir),
            ([''sandbox'', ''docs''], Dir),
            ([''sandbox'', ''b.txt''], File ''A''),
            ([''etc''], Dir),
            ([''etc'', ''passwd''], File ''root'')],
         cwd = []\<rparr>)
   \<and> fst (handleMoveFile sb perms fs args) \<noteq> Inl AlreadyExists"
proof (intro conjI)
  show "fs_readFile example_tree ''/sandbox/b.txt'' = Inr ''B''" by code_simp
  show "handleMoveFile example_sandbox (no_permissions\<lparr>move := True\<rparr>) example_tree
        (Some \<lparr>source = ''/sandbox/docs/a.txt'', destination = ''/sandbox/b.txt''\<rparr>)
     = (Inr ''Successfully moved /sandbox/docs/a.txt to /sandbox/b.txt'',
        \<lparr>nodes =
           [([''sandbox''], Dir),
            ([''sandbox'', ''docs''], Dir),
            ([''sandbox'', ''b.txt''], File ''A''),
            ([''etc''], Dir),
            ([''etc'', ''passwd''], File ''root'')],
         cwd = []\<rparr>)"
    by code_simp
  show "fst (handleMoveFile sb perms fs args) \<noteq> Inl AlreadyExists"
    by (auto simp: handleMoveFile_def Let_def split: option.splits sum.splits)
qed

text \<open>
  C3, where the code departs from it. \<open>handleRenameFile\<close> joins the directory of
  the source with the new name as given, and \<open>path.join\<close> collapses a \<open>..\<close> in
  it: renaming \<open>/sandbox/docs/a.txt\<close> to \<open>../c.txt\<close> succeeds and puts the file in
  \<open>/sandbox\<close>, not in \<open>/sandbox/docs\<close>.
\<close>

theorem rename_leaves_the_directory:
  "handleRenameFile example_sandbox (no_permissions\<lparr>rename := True\<rparr>) example_tree
        (Some \<lparr>path_r = ''/sandbox/docs/a.txt'', newName = ''../c.txt''\<rparr>)
     = (Inr ''Successfully renamed /sandbox/docs/a.txt to ../c.txt'',
        \<lparr>nodes =
           [([''sandbox''], Dir),
            ([''sandbox'', ''docs''], Dir),
            ([''sandbox'', ''c.txt''], File ''A''),
            ([''sandbox'', ''b.txt''], File ''B''),
            ([''etc''], Dir),
            ([''etc'', ''passwd''], File ''root'')],
         cwd = []\<rparr>)
   \<and> validatePath example_sandbox example_tree True ''/sandbox/docs/a.txt''
       = Inr ''/sandbox/docs/a.txt''
   \<and> validatePath example_sandbox example_tree True
         (path_join [path_dirname ''/sandbox/docs/a.txt'', ''../c.txt''])
       = Inr ''/sandbox/c.txt''
   \<and> path_dirname ''/sandbox/c.txt'' \<noteq> path_dirname ''/sandbox/docs/a.txt''"
  by code_simp

text \<open>
  C4, where the code departs from it. In \<open>handleModifyFile\<close> the permission
  failure is thrown inside the \<open>try\<close> block, whose \<open>catch\<close> clause replaces it: no
  run ends in \<open>PermissionDenied\<close>. For the existing file \<open>/sandbox/b.txt\<close> and no
  permission granted, the failure is \<open>NotFound\<close>; the file system is unchanged.
\<close>

theorem modify_without_permission_reports_not_found:
  "fs_access example_tree ''/sandbox/b.txt'' = Inr ()
   \<and> handleModifyFile example_sandbox no_permissions example_tree
        (Some \<lparr>path = ''/sandbox/b.txt'', content = ''new''\<rparr>)
     = (Inl NotFound, example_tree)
   \<and> fst (handleModifyFile sb perms fs args) \<noteq> Inl PermissionDenied"
proof (intro conjI)
  show "fs_access example_tree ''/sandbox/b.txt'' = Inr ()" by code_simp
  show "handleModifyFile example_sandbox no_permissions example_tree
        (Some \<lparr>path = ''/sandbox/b.txt'', content = ''new''\<rparr>)
     = (Inl NotFound, example_tree)"
    by code_simp
  show "fst (handleModifyFile sb perms fs args) \<noteq> Inl PermissionDenied"
    by (auto simp: handleModifyFile_def split: option.splits sum.splits prod.splits)
qed

end
